theory Spec2Isabelle
  imports Main "HOL-Library.Word" "HOL-Library.Sublist"
begin

unbundle bit_operations_syntax

section \<open>Python values used by the client\<close>

text \<open>
  A Python \<open>str\<close> is modelled as a \<open>string\<close>: each \<open>char\<close> stands for one code point
  below 256, and the character classes below are CPython's, restricted to that range.
  A \<open>bytes\<close> object is a list of 8-bit words.
\<close>

type_synonym bytes = "8 word list"

definition py_isspace :: "char \<Rightarrow> bool" where
  \<comment> \<open>\<open>str.isspace\<close> on one character; it is also the class \<open>\s\<close> of \<open>re\<close> on a \<open>str\<close> pattern\<close>
  "py_isspace c = (of_char c \<in> {9, 10, 11, 12, 13, 28, 29, 30, 31, 32, 133, 160 :: nat})"


definition py_isalnum :: "char \<Rightarrow> bool" where
  \<comment> \<open>\<open>str.isalnum\<close> on one character\<close>
  "py_isalnum c = (let n = of_char c :: nat in
     (48 \<le> n \<and> n \<le> 57) \<or> (65 \<le> n \<and> n \<le> 90) \<or> (97 \<le> n \<and> n \<le> 122) \<or>
     n \<in> {170, 178, 179, 181, 185, 186, 188, 189, 190} \<or>
     (192 \<le> n \<and> n \<le> 214) \<or> (216 \<le> n \<and> n \<le> 246) \<or> (248 \<le> n \<and> n \<le> 255))"

definition re_word :: "char \<Rightarrow> bool" where
  \<comment> \<open>the class \<open>\w\<close> of \<open>re\<close> on a \<open>str\<close> pattern\<close>
  "re_word c = (py_isalnum c \<or> c = CHR ''_'')"

definition is_digit :: "char \<Rightarrow> bool" where
  "is_digit c = (48 \<le> (of_char c :: nat) \<and> (of_char c :: nat) \<le> 57)"

definition digit_val :: "char \<Rightarrow> int" where
  "digit_val c = int (of_char c) - 48"

definition int_isspace :: "char \<Rightarrow> bool" where
  \<comment> \<open>the whitespace that \<open>int(s)\<close> skips around the literal\<close>
  "int_isspace c = (of_char c \<in> {9, 10, 11, 12, 13, 32, 133, 160 :: nat})"

fun int_digits :: "int \<Rightarrow> bool \<Rightarrow> string \<Rightarrow> int option" where
  \<comment> \<open>decimal digits, single underscores allowed between two digits; the flag says that
      the previous character was a digit\<close>
  "int_digits acc prev [] = (if prev then Some acc else None)"
| "int_digits acc prev (c # cs) =
     (if is_digit c then int_digits (10 * acc + digit_val c) True cs
      else if c = CHR ''_'' \<and> prev then int_digits acc False cs
      else None)"

definition py_int :: "string \<Rightarrow> int option" where
  \<comment> \<open>\<open>int(s)\<close> for a \<open>str\<close>; \<open>None\<close> stands for \<open>ValueError\<close>\<close>
  "py_int s =
     (case rev (dropWhile int_isspace (rev (dropWhile int_isspace s))) of
        c # cs \<Rightarrow>
          (if c = CHR ''-'' then map_option uminus (int_digits 0 False cs)
           else if c = CHR ''+'' then int_digits 0 False cs
           else int_digits 0 False (c # cs))
      | [] \<Rightarrow> None)"

definition digit_char :: "nat \<Rightarrow> char" where
  "digit_char n = ''0123456789'' ! (n mod 10)"

fun nat_digits :: "nat \<Rightarrow> string" where
  "nat_digits n =
     (if n < 10 then [digit_char n] else nat_digits (n div 10) @ [digit_char (n mod 10)])"

declare nat_digits.simps [simp del]

definition py_str :: "int \<Rightarrow> string" where
  \<comment> \<open>\<open>str(i)\<close>, also what an f-string writes for an \<open>int\<close>\<close>
  "py_str i = (if i < 0 then CHR ''-'' # nat_digits (nat (- i)) else nat_digits (nat i))"

definition zfill :: "nat \<Rightarrow> string \<Rightarrow> string" where
  "zfill w s = replicate (w - length s) (CHR ''0'') @ s"

section \<open>Exceptions and the outside world\<close>

record http_error =
  code :: nat
  fp :: bytes  \<comment> \<open>the part of the response body not read yet\<close>

datatype error =
    KeyError string
  | ValueError
  | TypeError
  | HTTPError http_error
  | URLError
  | TimeoutError
  | OSError
  | UnicodeDecodeError
  | ParseError

definition read :: "http_error \<Rightarrow> bytes \<times> http_error" where
  \<comment> \<open>\<open>exc.read()\<close>: returns what is left of the body and leaves the stream at its end\<close>
  "read exc = (fp exc, exc\<lparr>fp := []\<rparr>)"

datatype element =
  Element (tag: string) (attrib: "(string \<times> string) list") (elem_text: "string option")
    (tail: "string option") (children: "element list")

record datetime =
  year :: nat
  month :: nat
  day :: nat
  hour :: nat
  minute :: nat
  second :: nat

datatype verify_mode = CERT_NONE | CERT_REQUIRED

record ssl_context =
  check_hostname :: bool
  verify :: verify_mode
  certfile :: string
  keyfile :: string

record request =
  url :: string
  data :: bytes
  headers :: "(string \<times> string) list"
  http_method :: string

record env =
  now :: datetime  \<comment> \<open>\<open>datetime.datetime.now()\<close>\<close>
  uuid4 :: "128 word"  \<comment> \<open>\<open>uuid.uuid4()\<close>\<close>
  load_verify_locations :: "string option \<Rightarrow> error option"
  load_cert_chain :: "string \<Rightarrow> string \<Rightarrow> error option"
  urlopen :: "request \<Rightarrow> ssl_context \<Rightarrow> nat \<Rightarrow> error + bytes"
    \<comment> \<open>\<open>urlopen(req, context, timeout)\<close> followed by \<open>resp.read()\<close>\<close>
  decode_utf8 :: "bytes \<Rightarrow> string option"  \<comment> \<open>\<open>raw.decode("utf-8")\<close>\<close>
  fromstring :: "string \<Rightarrow> element option"  \<comment> \<open>\<open>ET.fromstring\<close>\<close>

section \<open>Configuration\<close>

definition SSL_CERT_FILE :: string where "SSL_CERT_FILE = ''client.crt''"
definition SSL_KEY_FILE :: string where "SSL_KEY_FILE = ''client.key''"
definition CLINIC_HOST :: string where "CLINIC_HOST = ''demo.infoclinica.ru''"
definition FILIAL_ID :: int where "FILIAL_ID = 1"
definition EXTERNAL_SYSTEM_ID :: string where "EXTERNAL_SYSTEM_ID = ''CRM_IDEAV''"
definition API_URL :: string where "API_URL = ''https://api.infoclinica.ru/api/xml''"

text \<open>
  The sample patient of the source. Its three Cyrillic values lie outside the code point
  range of the model and are written as their UTF-8 encoding; nothing below depends on
  them.
\<close>

definition TEST_PATIENT :: "string \<rightharpoonup> string" where
  "TEST_PATIENT = map_of
     [(''LASTNAME'', [CHR 0xD0, CHR 0xA2, CHR 0xD0, CHR 0xB5, CHR 0xD1, CHR 0x81, CHR 0xD1, CHR 0x82,
                      CHR 0xD0, CHR 0xBE, CHR 0xD0, CHR 0xB2]),
      (''FIRSTNAME'', [CHR 0xD0, CHR 0xA2, CHR 0xD0, CHR 0xB5, CHR 0xD1, CHR 0x81, CHR 0xD1, CHR 0x82]),
      (''MIDNAME'', [CHR 0xD0, CHR 0xA2, CHR 0xD0, CHR 0xB5, CHR 0xD1, CHR 0x81, CHR 0xD1, CHR 0x82,
                     CHR 0xD0, CHR 0xBE, CHR 0xD0, CHR 0xB2, CHR 0xD0, CHR 0xB8, CHR 0xD1, CHR 0x87]),
      (''EMAIL'', ''test@example.com''),
      (''PHONE'', ''+7(999)000-00-00''),
      (''BDATE'', ''19900101''),
      (''GENDER'', ''1''),
      (''CHECKMODE'', ''1'')]"

section \<open>Helper functions\<close>

definition now_ts :: "env \<Rightarrow> string" where
  \<comment> \<open>\<open>strftime("%Y%m%d%H%M%S")\<close> of the clock\<close>
  "now_ts env = (let t = now env in
     zfill 4 (nat_digits (year t)) @ zfill 2 (nat_digits (month t)) @ zfill 2 (nat_digits (day t)) @
     zfill 2 (nat_digits (hour t)) @ zfill 2 (nat_digits (minute t)) @ zfill 2 (nat_digits (second t)))"

definition hexdigit :: "nat \<Rightarrow> char" where
  "hexdigit n = ''0123456789abcdef'' ! (n mod 16)"

definition uuid_hex :: "128 word \<Rightarrow> string" where
  \<comment> \<open>the 32 hexadecimal digits of the value, most significant first\<close>
  "uuid_hex u = map (\<lambda>i. hexdigit (unat (drop_bit (4 * i) u AND 15))) (rev [0..<32])"

definition str_uuid :: "128 word \<Rightarrow> string" where
  \<comment> \<open>\<open>str(u)\<close> of a UUID: groups of 8, 4, 4, 4 and 12 digits\<close>
  "str_uuid u = (let h = uuid_hex u in
     take 8 h @ ''-'' @ take 4 (drop 8 h) @ ''-'' @ take 4 (drop 12 h) @ ''-'' @
     take 4 (drop 16 h) @ ''-'' @ drop 20 h)"

definition msg_id :: "env \<Rightarrow> string" where
  \<comment> \<open>\<open>str(uuid.uuid4()).replace("-", "")[:20]\<close>\<close>
  "msg_id env = take 20 (filter (\<lambda>c. c \<noteq> CHR ''-'') (str_uuid (uuid4 env)))"

definition build_msh_xml :: "env \<Rightarrow> string \<Rightarrow> int option \<Rightarrow> string" where
  "build_msh_xml env msg_type filial_id =
     (let filial_tag = (case filial_id of
                          Some f \<Rightarrow> ''<MSH.99>'' @ py_str f @ ''</MSH.99>''
                        | None \<Rightarrow> [])
      in ''<MSH>\<newline>'' @
         ''    <MSH.3>'' @ EXTERNAL_SYSTEM_ID @ ''</MSH.3>\<newline>'' @
         ''    <MSH.7><TS.1>'' @ now_ts env @ ''</TS.1></MSH.7>\<newline>'' @
         ''    <MSH.9>\<newline>'' @
         ''        <MSG.1>WEB</MSG.1>\<newline>'' @
         ''        <MSG.2>'' @ msg_type @ ''</MSG.2>\<newline>'' @
         ''    </MSH.9>\<newline>'' @
         ''    <MSH.10>'' @ msg_id env @ ''</MSH.10>\<newline>'' @
         ''    <MSH.18>UTF-8</MSH.18>\<newline>'' @
         ''    '' @ filial_tag @ ''\<newline>'' @
         ''</MSH>'')"

definition ssl_context :: "env \<Rightarrow> error + ssl_context" where
  "ssl_context env =
     (case load_verify_locations env None of
        Some e \<Rightarrow> Inl e
      | None \<Rightarrow>
          (case load_cert_chain env SSL_CERT_FILE SSL_KEY_FILE of
             Some e \<Rightarrow> Inl e
           | None \<Rightarrow> Inr \<lparr>check_hostname = False, verify = CERT_NONE,
                           certfile = SSL_CERT_FILE, keyfile = SSL_KEY_FILE\<rparr>))"

definition utf8_encode :: "string \<Rightarrow> bytes" where
  \<comment> \<open>\<open>s.encode("utf-8")\<close>: one byte below 128, two bytes from 128 to 255\<close>
  "utf8_encode s = concat (map (\<lambda>c. let n = of_char c :: nat in
     if n < 128 then [of_nat n] else [of_nat (192 + n div 64), of_nat (128 + n mod 64)]) s)"

subsection \<open>The namespace pattern\<close>

text \<open>
  \<open>re.sub(r'\s+xmlns(?::\w+)?="[^"]*"', '', xml_str)\<close>. Every repetition of the pattern is
  followed by a character outside its class, so the greedy match is the only one:
  \<open>match_xmlns\<close> gives what follows a match at the start of its argument.
\<close>

definition literal :: "string \<Rightarrow> string \<Rightarrow> string option" where
  "literal p s = (if prefix p s then Some (drop (length p) s) else None)"

definition match_xmlns :: "string \<Rightarrow> string option" where
  \<open>match_xmlns s =
     (if takeWhile py_isspace s = [] then None
      else case literal ''xmlns'' (dropWhile py_isspace s) of
        None \<Rightarrow> None
      | Some r2 \<Rightarrow>
          (let r3 = (case r2 of
                       c # t \<Rightarrow> if c = CHR '':'' \<and> takeWhile re_word t \<noteq> []
                                then dropWhile re_word t else r2
                     | [] \<Rightarrow> r2)
           in case literal ''="'' r3 of
                None \<Rightarrow> None
              | Some r4 \<Rightarrow>
                  (case dropWhile (\<lambda>c. c \<noteq> CHR 0x22) r4 of
                     [] \<Rightarrow> None
                   | q # r5 \<Rightarrow> Some r5)))\<close>

lemma literal_length: "literal p s = Some r \<Longrightarrow> length r \<le> length s"
  by (auto simp: literal_def split: if_splits)

lemma match_xmlns_shorter:
  assumes "match_xmlns s = Some r"
  shows "length r < length s"
proof -
  from assms have ws: "takeWhile py_isspace s \<noteq> []"
    by (auto simp: match_xmlns_def split: if_splits)
  from assms obtain r2 where r2: "literal ''xmlns'' (dropWhile py_isspace s) = Some r2"
    by (auto simp: match_xmlns_def split: if_splits option.splits)
  define r3 where "r3 = (case r2 of
      c # t \<Rightarrow> if c = CHR '':'' \<and> takeWhile re_word t \<noteq> [] then dropWhile re_word t else r2
    | [] \<Rightarrow> r2)"
  from assms r2 ws obtain r4 where r4: \<open>literal ''="'' r3 = Some r4\<close>
    by (auto simp: match_xmlns_def r3_def Let_def split: option.splits)
  from assms r2 r4 ws obtain q where q: "dropWhile (\<lambda>c. c \<noteq> CHR 0x22) r4 = q # r"
    by (auto simp: match_xmlns_def r3_def Let_def split: option.splits list.splits)
  have "s = takeWhile py_isspace s @ dropWhile py_isspace s"
    by simp
  then have "length s = length (takeWhile py_isspace s) + length (dropWhile py_isspace s)"
    by (metis length_append)
  with ws have "length (dropWhile py_isspace s) < length s"
    by (cases "takeWhile py_isspace s") auto
  moreover have "length r2 \<le> length (dropWhile py_isspace s)"
    using r2 by (rule literal_length)
  moreover have "length r3 \<le> length r2"
    by (auto simp: r3_def length_dropWhile_le le_SucI split: list.splits)
  moreover have "length r4 \<le> length r3"
    using r4 by (rule literal_length)
  moreover have "length r < length r4"
    using length_dropWhile_le [of "\<lambda>c. c \<noteq> CHR 0x22" r4] q by simp
  ultimately show ?thesis by linarith
qed

function re_sub_xmlns :: "string \<Rightarrow> string" where
  "re_sub_xmlns [] = []"
| "re_sub_xmlns (c # cs) =
     (case match_xmlns (c # cs) of
        Some rest \<Rightarrow> re_sub_xmlns rest
      | None \<Rightarrow> c # re_sub_xmlns cs)"
  by pat_completeness auto
termination
  by (relation "measure length") (auto dest: match_xmlns_shorter)

section \<open>Transport\<close>

text \<open>
  Each function that may send returns, next to its result, the list of the requests it
  has handed to \<open>urlopen\<close>.
\<close>

definition post_request :: "string \<Rightarrow> int option \<Rightarrow> request" where
  \<comment> \<open>the \<open>urllib.request.Request\<close> that \<open>_send_request\<close> builds\<close>
  "post_request xml_body filial_id =
     (let headers0 = [(''Content-Type'', ''application/xml; charset=utf-8''),
                      (''Accept'', ''application/xml'')];
          headers1 = (if filial_id \<noteq> None then headers0 @ [(''X-Forwarded-Host'', CLINIC_HOST)]
                      else headers0)
      in \<lparr>url = API_URL, data = utf8_encode xml_body, headers = headers1,
            http_method = ''POST''\<rparr>)"

definition send_request :: "env \<Rightarrow> string \<Rightarrow> int option \<Rightarrow> (error + element) \<times> request list" where
  "send_request env xml_body filial_id =
     (let req = post_request xml_body filial_id
      in case ssl_context env of
           Inl e \<Rightarrow> (Inl e, [])
         | Inr ctx \<Rightarrow>
             (case urlopen env req ctx 30 of
                Inl e \<Rightarrow>
                  (case e of
                     HTTPError exc \<Rightarrow> (let (raw, exc') = read exc in (Inl (HTTPError exc'), [req]))
                   | _ \<Rightarrow> (Inl e, [req]))
              | Inr raw \<Rightarrow>
                  (case decode_utf8 env raw of
                     None \<Rightarrow> (Inl UnicodeDecodeError, [req])
                   | Some xml_str \<Rightarrow>
                       (case fromstring env (re_sub_xmlns xml_str) of
                          None \<Rightarrow> (Inl ParseError, [req])
                        | Some root \<Rightarrow> (Inr root, [req])))))"

section \<open>Response validation\<close>

text \<open>
  The paths of the source have the shapes \<open>.//T\<close> and \<open>.//T/U\<close>. ElementPath turns a
  path into a list of selectors and applies them in turn, starting from the list that
  holds the root; \<open>iter\<close> is \<open>Element.iter()\<close>, the element and then its descendants in
  document order.
\<close>

datatype selector = Self | Descendant string | Child string

fun iter :: "element \<Rightarrow> element list" where
  "iter (Element t a x tl0 cs) = Element t a x tl0 cs # concat (map iter cs)"

fun select :: "selector \<Rightarrow> element list \<Rightarrow> element list" where
  "select Self result = result"
| "select (Descendant t) result =
     concat (map (\<lambda>elem. filter (\<lambda>e. tag e = t) (concat (map iter (children elem)))) result)"
| "select (Child t) result =
     concat (map (\<lambda>elem. filter (\<lambda>e. tag e = t) (children elem)) result)"


definition findall :: "element \<Rightarrow> selector list \<Rightarrow> element list" where
  "findall root path = foldl (\<lambda>result s. select s result) [root] path"

definition findtext :: "element \<Rightarrow> selector list \<Rightarrow> string \<Rightarrow> string" where
  "findtext root path dflt =
     (case findall root path of
        [] \<Rightarrow> dflt
      | e # _ \<Rightarrow> (case elem_text e of None \<Rightarrow> [] | Some t \<Rightarrow> t))"

definition check_msa :: "element \<Rightarrow> string \<Rightarrow> bool" where
  "check_msa root method_name =
     (let msa1 = findtext root [Self, Descendant ''MSA.1''] [];
          msa3 = findtext root [Self, Descendant ''MSA.3''] []
      in msa1 = ''AA'')"

definition spresult :: "element \<Rightarrow> string \<Rightarrow> error + int \<times> string" where
  "spresult root out_tag =
     (let s = findtext root [Self, Descendant out_tag, Child ''SPRESULT''] ''-999''
      in case (if s = [] then Some (- 999) else py_int s) of
           None \<Rightarrow> Inl ValueError
         | Some result \<Rightarrow>
             Inr (result, findtext root [Self, Descendant out_tag, Child ''SPCOMMENT''] []))"

section \<open>CLIENTS\_CHANGE\_LIST\<close>





section \<open>CLIENT\_ADD\<close>

record client_add_result =
  pcode :: string
  spresult_code :: int
  spcomment :: string

definition getitem :: "(string \<rightharpoonup> string) \<Rightarrow> string \<Rightarrow> error + string" where
  \<comment> \<open>\<open>patient[key]\<close>\<close>
  "getitem patient key = (case patient key of None \<Rightarrow> Inl (KeyError key) | Some v \<Rightarrow> Inr v)"

definition get :: "(string \<rightharpoonup> string) \<Rightarrow> string \<Rightarrow> string \<Rightarrow> string" where
  \<comment> \<open>\<open>patient.get(key, dflt)\<close>\<close>
  "get patient key dflt = (case patient key of None \<Rightarrow> dflt | Some v \<Rightarrow> v)"

definition opt :: "(string \<rightharpoonup> string) \<Rightarrow> string \<Rightarrow> string" where
  "opt patient key =
     (let val = get patient key []
      in if val \<noteq> [] then ''<'' @ key @ ''>'' @ val @ ''</'' @ key @ ''>'' else [])"

definition client_add_document ::
  "string \<Rightarrow> (string \<rightharpoonup> string) \<Rightarrow> string \<Rightarrow> string \<Rightarrow> string \<Rightarrow> string" where
  \<comment> \<open>the text of the f-string, once the three subscripts have their values\<close>
  \<open>client_add_document msh patient lastname firstname bdate =
     ''<?xml version="1.0" encoding="UTF-8"?>\<newline>'' @
     ''<WEB_CLIENT_ADD xmlns="http://sdsys.ru/">\<newline>'' @
     ''    '' @ msh @ ''\<newline>'' @
     ''    <CLIENT_ADD_IN>\<newline>'' @
     ''        '' @ ''<LASTNAME>'' @ lastname @ ''</LASTNAME>'' @ ''\<newline>'' @
     ''        '' @ ''<FIRSTNAME>'' @ firstname @ ''</FIRSTNAME>'' @ ''\<newline>'' @
     ''        '' @ opt patient ''MIDNAME'' @ ''\<newline>'' @
     ''        '' @ opt patient ''EMAIL'' @ ''\<newline>'' @
     ''        '' @ opt patient ''PHONE'' @ ''\<newline>'' @
     ''        '' @ ''<BDATE>'' @ bdate @ ''</BDATE>'' @ ''\<newline>'' @
     ''        '' @ opt patient ''GENDER'' @ ''\<newline>'' @
     ''        '' @ opt patient ''SNILS'' @ ''\<newline>'' @
     ''        '' @ opt patient ''NSP'' @ ''\<newline>'' @
     ''        '' @ opt patient ''CHECKMODE'' @ ''\<newline>'' @
     ''        '' @ opt patient ''REFUSECALL'' @ ''\<newline>'' @
     ''        '' @ opt patient ''REFUSESMS'' @ ''\<newline>'' @
     ''    </CLIENT_ADD_IN>\<newline>'' @
     ''</WEB_CLIENT_ADD>''\<close>

definition client_add_xml_body :: "string \<Rightarrow> (string \<rightharpoonup> string) \<Rightarrow> error + string" where
  \<comment> \<open>the subscripts \<open>patient['LASTNAME']\<close>, \<open>patient['FIRSTNAME']\<close> and \<open>patient['BDATE']\<close>
      are evaluated in this order, and the first missing key raises\<close>
  "client_add_xml_body msh patient =
     (case getitem patient ''LASTNAME'' of
        Inl e \<Rightarrow> Inl e
      | Inr lastname \<Rightarrow>
     (case getitem patient ''FIRSTNAME'' of
        Inl e \<Rightarrow> Inl e
      | Inr firstname \<Rightarrow>
     (case getitem patient ''BDATE'' of
        Inl e \<Rightarrow> Inl e
      | Inr bdate \<Rightarrow> Inr (client_add_document msh patient lastname firstname bdate))))"

definition result_of_response :: "element \<Rightarrow> error + client_add_result" where
  \<comment> \<open>what \<open>client_add\<close> does with the parsed response\<close>
  "result_of_response root =
     (let ok = check_msa root ''CLIENT_ADD''
      in case spresult root ''CLIENT_ADD_OUT'' of
           Inl e \<Rightarrow> Inl e
         | Inr (result, comment) \<Rightarrow>
             (let pc = findtext root [Self, Descendant ''CLIENT_ADD_OUT'', Child ''PCODE''] []
              in Inr \<lparr>pcode = pc, spresult_code = result, spcomment = comment\<rparr>))"

definition client_add :: "env \<Rightarrow> (string \<rightharpoonup> string) option \<Rightarrow> (error + client_add_result) \<times> request list" where
  "client_add env patient_arg =
     (let patient = (case patient_arg of None \<Rightarrow> TEST_PATIENT | Some p \<Rightarrow> p);
          msh = build_msh_xml env ''CLIENT_ADD'' None
      in case client_add_xml_body msh patient of
           Inl e \<Rightarrow> (Inl e, [])
         | Inr xml_body \<Rightarrow>
             (let (r, sent) = send_request env xml_body None
              in case r of
                   Inl e \<Rightarrow> (Inl e, sent)
                 | Inr root \<Rightarrow> (result_of_response root, sent)))"

section \<open>Sample documents and environments\<close>

definition leaf :: "string \<Rightarrow> string \<Rightarrow> element" where
  "leaf t x = Element t [] (Some x) None []"

definition node :: "string \<Rightarrow> element list \<Rightarrow> element" where
  "node t cs = Element t [] None None cs"

definition canned_env :: "element \<Rightarrow> env" where
  \<comment> \<open>an environment whose server answers with a body that parses to the given document\<close>
  "canned_env doc =
     \<lparr>now = \<lparr>year = 2024, month = 5, day = 17, hour = 9, minute = 30, second = 0\<rparr>,
      uuid4 = 0,
      load_verify_locations = (\<lambda>cafile. None),
      load_cert_chain = (\<lambda>c k. None),
      urlopen = (\<lambda>req ctx timeout. Inr []),
      decode_utf8 = (\<lambda>raw. Some []),
      fromstring = (\<lambda>s. Some doc)\<rparr>"


definition minimal_patient :: "string \<rightharpoonup> string" where
  "minimal_patient =
     map_of [(''LASTNAME'', ''Doe''), (''FIRSTNAME'', ''Jo''), (''BDATE'', ''19850315'')]"

definition accepted_add_doc :: element where
  "accepted_add_doc =
     node ''WEB_CLIENT_ADD''
       [node ''MSA'' [leaf ''MSA.1'' ''AA''],
        node ''CLIENT_ADD_OUT''
          [leaf ''SPRESULT'' ''1'', leaf ''SPCOMMENT'' ''created'', leaf ''PCODE'' ''1001'']]"






section \<open>Tags in a serialized document\<close>

text \<open>
  The client writes its requests as text. A tag named \<open>k\<close> shows in the text as
  \<open><k\<close> (start tag or empty element) or \<open></k\<close> (end tag). \<open>after_lt\<close> lists what follows
  each \<open><\<close> of a text; \<open>tag_free k s\<close> says that none of these starts with \<open>k\<close> or
  \<open>/k\<close>, and that none is so short that a continuation of the text could complete it.
\<close>

fun after_lt :: "string \<Rightarrow> string list" where
  "after_lt [] = []"
| "after_lt (c # cs) = (if c = CHR ''<'' then cs # after_lt cs else after_lt cs)"

definition diverge :: "string \<Rightarrow> string \<Rightarrow> bool" where
  "diverge k t = (\<not> prefix k t \<and> \<not> prefix t k)"

definition tag_free :: "string \<Rightarrow> string \<Rightarrow> bool" where
  "tag_free k s = list_all (\<lambda>t. diverge k t \<and> diverge (CHR ''/'' # k) t) (after_lt s)"

definition optional_keys :: "string list" where
  "optional_keys = [''MIDNAME'', ''EMAIL'', ''PHONE'', ''GENDER'', ''SNILS'', ''NSP'',
     ''CHECKMODE'', ''REFUSECALL'', ''REFUSESMS'']"

definition required_keys :: "string list" where
  "required_keys = [''LASTNAME'', ''FIRSTNAME'', ''BDATE'']"

definition injected_patient :: "string \<rightharpoonup> string" where
  \<comment> \<open>a record whose last name is itself markup\<close>
  "injected_patient =
     map_of [(''LASTNAME'', ''<EMAIL>x</EMAIL>''), (''FIRSTNAME'', ''Jo''), (''BDATE'', ''19850315'')]"

definition sparse_patient :: "string \<rightharpoonup> string" where
  \<comment> \<open>an empty first name, an e-mail address, an empty phone number, no other optional field\<close>
  "sparse_patient =
     map_of [(''LASTNAME'', ''Doe''), (''FIRSTNAME'', []), (''BDATE'', ''19850315''),
             (''EMAIL'', ''jo@example.com''), (''PHONE'', [])]"

section \<open>A mock echo server\<close>

text \<open>
  The round trip of a request body: the server of \<open>echo_env\<close> answers every request with
  the bytes it received, \<open>utf8_decode\<close> reads back what \<open>utf8_encode\<close> writes, and the XML
  parser is a parameter. \<open>parsed_back\<close> is the document that \<open>_send_request\<close> then returns
  for the body of \<open>client_add\<close>, and \<open>recovers\<close> says that every field of the record is
  read back from it: a present field with its value, an absent one as no element.
\<close>

fun utf8_decode :: "bytes \<Rightarrow> string option" where
  "utf8_decode [] = Some []"
| "utf8_decode [b] = (if unat b < 128 then Some [char_of (unat b)] else None)"
| "utf8_decode (b # c # bs) =
     (if unat b < 128 then map_option ((#) (char_of (unat b))) (utf8_decode (c # bs))
      else if (unat b = 194 \<or> unat b = 195) \<and> 128 \<le> unat c \<and> unat c < 192
      then map_option ((#) (char_of ((unat b - 192) * 64 + (unat c - 128)))) (utf8_decode bs)
      else None)"

definition echo_env :: "(string \<Rightarrow> element option) \<Rightarrow> env" where
  "echo_env parser =
     \<lparr>now = \<lparr>year = 2024, month = 5, day = 17, hour = 9, minute = 30, second = 0\<rparr>,
      uuid4 = 0,
      load_verify_locations = (\<lambda>cafile. None),
      load_cert_chain = (\<lambda>c k. None),
      urlopen = (\<lambda>req ctx timeout. Inr (data req)),
      decode_utf8 = utf8_decode,
      fromstring = parser\<rparr>"

definition parsed_back :: "(string \<Rightarrow> element option) \<Rightarrow> (string \<rightharpoonup> string) \<Rightarrow> element option" where
  "parsed_back parser patient =
     (case client_add_xml_body (build_msh_xml (echo_env parser) ''CLIENT_ADD'' None) patient of
        Inl e \<Rightarrow> None
      | Inr xml_body \<Rightarrow>
          (case fst (send_request (echo_env parser) xml_body None) of
             Inl e \<Rightarrow> None
           | Inr root \<Rightarrow> Some root))"

definition recovers :: "element \<Rightarrow> (string \<rightharpoonup> string) \<Rightarrow> bool" where
  "recovers root patient =
     list_all (\<lambda>key. case patient key of
                  Some v \<Rightarrow> findtext root [Self, Descendant ''CLIENT_ADD_IN'', Child key] [] = v
                | None \<Rightarrow> findall root [Self, Descendant ''CLIENT_ADD_IN'', Child key] = [])
       (required_keys @ optional_keys)"

definition roundtrip_ok :: "(string \<Rightarrow> element option) \<Rightarrow> (string \<rightharpoonup> string) \<Rightarrow> bool" where
  "roundtrip_ok parser patient =
     (case parsed_back parser patient of None \<Rightarrow> False | Some root \<Rightarrow> recovers root patient)"

definition pattern_char :: "char \<Rightarrow> bool" where
  \<comment> \<open>the characters that a match of the namespace pattern can hold before its first quote\<close>
  "pattern_char c = (py_isspace c \<or> re_word c \<or> c = CHR '':'' \<or> c = CHR ''='')"

definition quoted_patient :: "string \<rightharpoonup> string" where
  \<comment> \<open>\<open>minimal_patient\<close> with a last name that ends like a namespace declaration\<close>
  \<open>quoted_patient =
     map_of [(''LASTNAME'', ''Doe xmlns="x"''), (''FIRSTNAME'', ''Jo''), (''BDATE'', ''19850315'')]\<close>

text \<open>
  The lines of the \<open>CLIENT_ADD_IN\<close> block, one per field: key, value, and whether the
  element is written also for an empty value.
\<close>

definition item_text :: "string \<times> string \<times> bool \<Rightarrow> string" where
  "item_text item =
     (case item of (key, val, required) \<Rightarrow>
        ''        '' @
        (if required \<or> val \<noteq> [] then ''<'' @ key @ ''>'' @ val @ ''</'' @ key @ ''>'' else []) @
        ''\<newline>'')"

definition client_add_items ::
  "(string \<rightharpoonup> string) \<Rightarrow> string \<Rightarrow> string \<Rightarrow> string \<Rightarrow> (string \<times> string \<times> bool) list" where
  "client_add_items patient lastname firstname bdate =
     [(''LASTNAME'', lastname, True), (''FIRSTNAME'', firstname, True),
      (''MIDNAME'', get patient ''MIDNAME'' [], False),
      (''EMAIL'', get patient ''EMAIL'' [], False),
      (''PHONE'', get patient ''PHONE'' [], False),
      (''BDATE'', bdate, True),
      (''GENDER'', get patient ''GENDER'' [], False),
      (''SNILS'', get patient ''SNILS'' [], False),
      (''NSP'', get patient ''NSP'' [], False),
      (''CHECKMODE'', get patient ''CHECKMODE'' [], False),
      (''REFUSECALL'', get patient ''REFUSECALL'' [], False),
      (''REFUSESMS'', get patient ''REFUSESMS'' [], False)]"

section \<open>Simple documents as ElementTree reads them\<close>

text \<open>
  \<open>ET.fromstring\<close> is library code. The round trip needs what it returns for the requests
  of this client only, so the model is a fragment of XML: the declaration that the
  requests carry, elements without attributes, and character data without references.
  \<open>xml_fragment\<close> gives the tree that ElementTree builds for a text of the fragment
  (the parser reports start tags, character data and end tags to a tree builder, which
  stores the data before the first child as \<open>text\<close> and the data after an element as its
  \<open>tail\<close>); for any other text it gives \<open>None\<close>, which says nothing about the parser.
\<close>

definition name_start :: "char \<Rightarrow> bool" where
  "name_start c = (let n = of_char c :: nat in
     (65 \<le> n \<and> n \<le> 90) \<or> (97 \<le> n \<and> n \<le> 122) \<or> c = CHR ''_'')"

definition name_char :: "char \<Rightarrow> bool" where
  "name_char c = (name_start c \<or> is_digit c \<or> c = CHR ''-'' \<or> c = CHR ''.'')"

definition text_char :: "char \<Rightarrow> bool" where
  \<comment> \<open>character data that is kept as it is: no markup, no reference, no line-end
      normalisation, no \<open>]]>\<close>\<close>
  "text_char c = (let n = of_char c :: nat in
     (n = 9 \<or> n = 10 \<or> (32 \<le> n \<and> n \<le> 126) \<or> 160 \<le> n) \<and>
     c \<noteq> CHR ''<'' \<and> c \<noteq> CHR ''&'' \<and> c \<noteq> CHR '']'')"

definition xml_space :: "char \<Rightarrow> bool" where
  "xml_space c = (of_char c \<in> {9, 10, 32 :: nat})"

datatype tag_mode = Content | TagOpen | StartName string | EmptyTag string | EndName string

type_synonym frame = "string \<times> string option \<times> element list"

record builder =
  b_mode :: tag_mode
  b_buf :: string  \<comment> \<open>character data since the last tag\<close>
  b_stack :: "frame list"  \<comment> \<open>open elements, innermost first: tag, text, children so far in reverse\<close>
  b_root :: "element option"  \<comment> \<open>the root, once closed\<close>

fun set_tail :: "element \<Rightarrow> string \<Rightarrow> element" where
  "set_tail (Element t a x tl0 cs) s = Element t a x (Some s) cs"

definition flush :: "builder \<Rightarrow> builder option" where
  "flush st =
     (if b_buf st = [] then Some st
      else case b_stack st of
        [] \<Rightarrow> if list_all xml_space (b_buf st) then Some (st\<lparr>b_buf := []\<rparr>) else None
      | (n, txt, kids) # fs \<Rightarrow>
          (case kids of
             [] \<Rightarrow> Some (st\<lparr>b_stack := (n, Some (b_buf st), []) # fs, b_buf := []\<rparr>)
           | k # ks \<Rightarrow> Some (st\<lparr>b_stack := (n, txt, set_tail k (b_buf st) # ks) # fs, b_buf := []\<rparr>)))"

definition open_elem :: "string \<Rightarrow> builder \<Rightarrow> builder option" where
  "open_elem n st =
     (if b_stack st = [] \<and> b_root st \<noteq> None then None
      else Some (st\<lparr>b_stack := (n, None, []) # b_stack st, b_mode := Content\<rparr>))"

definition close_elem :: "string \<Rightarrow> builder \<Rightarrow> builder option" where
  "close_elem n st =
     (case b_stack st of
        [] \<Rightarrow> None
      | (m, txt, kids) # fs \<Rightarrow>
          if m \<noteq> n then None
          else (let e = Element n [] txt None (rev kids) in
                case fs of
                  [] \<Rightarrow> Some (st\<lparr>b_stack := [], b_root := Some e, b_mode := Content\<rparr>)
                | (pn, ptxt, pkids) # ps \<Rightarrow>
                    Some (st\<lparr>b_stack := (pn, ptxt, e # pkids) # ps, b_mode := Content\<rparr>)))"

definition step :: "char \<Rightarrow> builder \<Rightarrow> builder option" where
  "step c st =
     (case b_mode st of
        Content \<Rightarrow>
          if c = CHR ''<'' then map_option (\<lambda>st'. st'\<lparr>b_mode := TagOpen\<rparr>) (flush st)
          else if text_char c then Some (st\<lparr>b_buf := b_buf st @ [c]\<rparr>)
          else None
      | TagOpen \<Rightarrow>
          if c = CHR ''/'' then Some (st\<lparr>b_mode := EndName []\<rparr>)
          else if name_start c then Some (st\<lparr>b_mode := StartName [c]\<rparr>)
          else None
      | StartName n \<Rightarrow>
          if name_char c then Some (st\<lparr>b_mode := StartName (n @ [c])\<rparr>)
          else if c = CHR ''>'' then open_elem n st
          else if c = CHR ''/'' then Some (st\<lparr>b_mode := EmptyTag n\<rparr>)
          else None
      | EmptyTag n \<Rightarrow>
          if c = CHR ''>'' then Option.bind (open_elem n st) (close_elem n) else None
      | EndName n \<Rightarrow>
          if name_char c then Some (st\<lparr>b_mode := EndName (n @ [c])\<rparr>)
          else if c = CHR ''>'' then close_elem n st
          else None)"

primrec run :: "builder \<Rightarrow> string \<Rightarrow> builder option" where
  "run st [] = Some st"
| "run st (c # cs) = (case step c st of None \<Rightarrow> None | Some st' \<Rightarrow> run st' cs)"

definition xml_decl :: string where
  \<open>xml_decl = ''<?xml version="1.0" encoding="UTF-8"?>''\<close>

definition xml_fragment :: "string \<Rightarrow> element option" where
  "xml_fragment s =
     (let body = (if prefix xml_decl s then drop (length xml_decl) s else s)
      in case run \<lparr>b_mode = Content, b_buf = [], b_stack = [], b_root = None\<rparr> body of
           None \<Rightarrow> None
         | Some st \<Rightarrow>
             if b_mode st = Content \<and> b_stack st = [] \<and> list_all xml_space (b_buf st)
             then b_root st else None)"

definition reads_fragment :: "(string \<Rightarrow> element option) \<Rightarrow> bool" where
  \<comment> \<open>a parser that reads the documents of the fragment as \<open>xml_fragment\<close> does\<close>
  "reads_fragment parser = (\<forall>s e. xml_fragment s = Some e \<longrightarrow> parser s = Some e)"

definition item_sig :: "string \<times> string \<times> bool \<Rightarrow> (string \<times> string option) list" where
  \<comment> \<open>tag and text of the element that a line of the block holds, if it holds one\<close>
  "item_sig item =
     (case item of (key, val, required) \<Rightarrow>
        if required \<or> val \<noteq> [] then [(key, if val = [] then None else Some val)] else [])"

definition valid_name :: "string \<Rightarrow> bool" where
  "valid_name k = (k \<noteq> [] \<and> name_start (hd k) \<and> list_all name_char k)"

definition building :: "frame \<Rightarrow> (string \<times> string option) list \<Rightarrow> builder \<Rightarrow> bool" where
  \<comment> \<open>inside \<open>CLIENT_ADD_IN\<close>, between two elements, with the given fields read so far\<close>
  "building rf sigs st =
     (b_mode st = Content \<and>
      (case b_stack st of
         [(n, txt, kids), rf'] \<Rightarrow>
           n = ''CLIENT_ADD_IN'' \<and> rf' = rf \<and>
           map (\<lambda>e. (tag e, elem_text e)) (rev kids) = sigs \<and>
           list_all (\<lambda>e. children e = []) kids
       | _ \<Rightarrow> False))"

section \<open>Basic facts about the operations\<close>















section \<open>Register Patient: the returned identifier\<close>




section \<open>A response without acknowledgment status\<close>







section \<open>Retrieve Change Batch: when the list is populated\<close>









section \<open>Transport: an HTTP error status\<close>




section \<open>Result extraction and the guard of payload extraction\<close>




section \<open>Register Patient: a missing required field\<close>

text \<open>
  C10: when the patient mapping lacks \<open>LASTNAME\<close>, \<open>FIRSTNAME\<close> or \<open>BDATE\<close>,
  \<open>client_add\<close> fails with the \<open>KeyError\<close> of the first of them that is missing; no
  request body is produced (no empty element stands in for the field) and no request has
  been handed to the network.
\<close>

theorem client_add_missing_required_key:
  assumes "patient ''LASTNAME'' = None \<or> patient ''FIRSTNAME'' = None \<or> patient ''BDATE'' = None"
  shows "\<exists>key. key = (if patient ''LASTNAME'' = None then ''LASTNAME''
                      else if patient ''FIRSTNAME'' = None then ''FIRSTNAME'' else ''BDATE'') \<and>
           patient key = None \<and>
           client_add_xml_body (build_msh_xml env ''CLIENT_ADD'' None) patient = Inl (KeyError key) \<and>
           client_add env (Some patient) = (Inl (KeyError key), [])"
  using assms
  by (auto simp: client_add_def client_add_xml_body_def getitem_def split: option.splits)

theorem client_add_missing_required_key_witness:
  "client_add (canned_env accepted_add_doc)
     (Some (map_of [(''LASTNAME'', ''Doe''), (''BDATE'', ''19850315'')])) =
     (Inl (KeyError ''FIRSTNAME''), [])"
  using client_add_missing_required_key
    [of "map_of [(''LASTNAME'', ''Doe''), (''BDATE'', ''19850315'')]" "canned_env accepted_add_doc"]
  by simp

section \<open>Retrieve Change Batch: the records\<close>










lemma hd_dropWhile_not: "dropWhile P xs \<noteq> [] \<Longrightarrow> \<not> P (hd (dropWhile P xs))"
  by (rule hd_dropWhile)





section \<open>Tags of the request text\<close>

lemma after_lt_append: "after_lt (a @ b) = map (\<lambda>t. t @ b) (after_lt a) @ after_lt b"
  by (induction a) auto

lemma after_lt_clean: "CHR ''<'' \<notin> set v \<Longrightarrow> after_lt v = []"
  by (induction v) auto

lemma diverge_append: "diverge k t \<Longrightarrow> diverge k (t @ b)"
  by (auto simp: diverge_def prefix_append dest: append_prefixD)

lemma tag_free_append: "tag_free k a \<Longrightarrow> tag_free k b \<Longrightarrow> tag_free k (a @ b)"
  by (auto simp: tag_free_def after_lt_append list_all_iff diverge_append)

lemma tag_free_clean: "CHR ''<'' \<notin> set v \<Longrightarrow> tag_free k v"
  by (simp add: tag_free_def after_lt_clean)

lemma sublist_lt_iff: "sublist (CHR ''<'' # k) s \<longleftrightarrow> (\<exists>t \<in> set (after_lt s). prefix k t)"
  by (induction s) (auto simp: sublist_Cons_right)

lemma tag_free_no_start_tag: "tag_free k s \<Longrightarrow> \<not> sublist (CHR ''<'' # k) s"
  by (auto simp: sublist_lt_iff tag_free_def list_all_iff diverge_def)

lemma tag_free_no_end_tag: "tag_free k s \<Longrightarrow> \<not> sublist (CHR ''<'' # CHR ''/'' # k) s"
  by (auto simp: sublist_lt_iff tag_free_def list_all_iff diverge_def)

subsection \<open>The characters of the generated header fields\<close>

lemma digit_char_chars: "digit_char n \<in> set ''0123456789''"
proof -
  have "n mod 10 < length ''0123456789''" by simp
  then show ?thesis
    unfolding digit_char_def by (rule nth_mem)
qed

lemma nat_digits_chars: "set (nat_digits n) \<subseteq> set ''0123456789''"
proof (induction n rule: nat_digits.induct)
  case (1 n)
  show ?case
  proof (cases "n < 10")
    case True
    have "nat_digits n = [digit_char n]"
      using True by (subst nat_digits.simps) simp
    then show ?thesis
      using digit_char_chars [of n] by (simp del: set_simps add: list.set(1) list.set(2) del: insert_iff)
  next
    case False
    have "nat_digits n = nat_digits (n div 10) @ [digit_char (n mod 10)]"
      using False by (subst nat_digits.simps) simp
    moreover have "set (nat_digits (n div 10)) \<subseteq> set ''0123456789''"
      using False by (rule "1.IH")
    ultimately show ?thesis
      using digit_char_chars [of "n mod 10"] by (simp only: set_append list.set Un_subset_iff insert_subset empty_subsetI simp_thms)
  qed
qed

lemma zfill_chars: "set (zfill w s) \<subseteq> insert (CHR ''0'') (set s)"
  by (auto simp: zfill_def)

lemma now_ts_chars: "set (now_ts env) \<subseteq> set ''0123456789''"
proof -
  have "set (zfill w (nat_digits n)) \<subseteq> set ''0123456789''" for w n
    using zfill_chars [of w "nat_digits n"] nat_digits_chars [of n] by auto
  then show ?thesis
    by (simp add: now_ts_def Let_def)
qed

lemma hexdigit_chars: "hexdigit n \<in> set ''0123456789abcdef''"
proof -
  have "n mod 16 < length ''0123456789abcdef''" by simp
  then show ?thesis
    unfolding hexdigit_def by (rule nth_mem)
qed

lemma uuid_hex_chars: "set (uuid_hex u) \<subseteq> set ''0123456789abcdef''"
proof -
  have "set (map f xs) \<subseteq> A" if "\<And>x. f x \<in> A" for f :: "nat \<Rightarrow> char" and xs A
    using that by auto
  then show ?thesis
    unfolding uuid_hex_def using hexdigit_chars by blast
qed

lemma str_uuid_chars:
  assumes "x \<in> set (str_uuid u)"
  shows "x = CHR ''-'' \<or> x \<in> set (uuid_hex u)"
  using assms by (auto simp: str_uuid_def Let_def dest: in_set_takeD in_set_dropD)

lemma msg_id_chars: "set (msg_id env) \<subseteq> set ''0123456789abcdef''"
proof
  fix x
  assume "x \<in> set (msg_id env)"
  then have "x \<in> set (filter (\<lambda>c. c \<noteq> CHR ''-'') (str_uuid (uuid4 env)))"
    unfolding msg_id_def by (rule in_set_takeD)
  then have "x \<in> set (uuid_hex (uuid4 env))"
    using str_uuid_chars [of x "uuid4 env"] by auto
  then show "x \<in> set ''0123456789abcdef''"
    using uuid_hex_chars by blast
qed

lemma now_ts_clean: "CHR ''<'' \<notin> set (now_ts env)"
  using now_ts_chars [of env] by auto

lemma msg_id_clean: "CHR ''<'' \<notin> set (msg_id env)"
  using msg_id_chars [of env] by auto

subsection \<open>Decimal numerals read back\<close>

lemma digit_char_table:
  "list_all (\<lambda>m. is_digit (digit_char m) \<and> digit_val (digit_char m) = int m \<and>
      \<not> int_isspace (digit_char m) \<and> digit_char m \<noteq> CHR ''-'' \<and> digit_char m \<noteq> CHR ''+'')
     [0, 1, 2, 3, 4, 5, 6, 7, 8, 9]"
  by (simp add: digit_char_def is_digit_def digit_val_def int_isspace_def)

lemma digit_char_props:
  "is_digit (digit_char n)" "digit_val (digit_char n) = int (n mod 10)"
  "\<not> int_isspace (digit_char n)" "digit_char n \<noteq> CHR ''-''" "digit_char n \<noteq> CHR ''+''"
proof -
  have m: "n mod 10 \<in> set [0, 1, 2, 3, 4, 5, 6, 7, 8, 9]"
  proof -
    have "n mod 10 < 10" by simp
    then have "n mod 10 \<in> set [0..<10]" by simp
    also have "[0..<10] = [0, 1, 2, 3, 4, 5, 6, 7, 8, 9 :: nat]" by (simp add: upt_conv_Cons)
    finally show ?thesis .
  qed
  have d: "digit_char n = digit_char (n mod 10)"
    by (simp add: digit_char_def)
  from digit_char_table m
  have "is_digit (digit_char (n mod 10)) \<and> digit_val (digit_char (n mod 10)) = int (n mod 10) \<and>
      \<not> int_isspace (digit_char (n mod 10)) \<and> digit_char (n mod 10) \<noteq> CHR ''-'' \<and>
      digit_char (n mod 10) \<noteq> CHR ''+''"
    unfolding list_all_iff by blast
  then show "is_digit (digit_char n)" "digit_val (digit_char n) = int (n mod 10)"
    "\<not> int_isspace (digit_char n)" "digit_char n \<noteq> CHR ''-''" "digit_char n \<noteq> CHR ''+''"
    by (simp_all add: d [symmetric])
qed

lemma nat_digits_shape:
  "\<exists>ds. nat_digits n = ds @ [digit_char (n mod 10)] \<and> (ds = [] \<or> (\<exists>m. hd ds = digit_char m))"
proof (induction n rule: nat_digits.induct)
  case (1 n)
  show ?case
  proof (cases "n < 10")
    case True
    then show ?thesis
      by (subst nat_digits.simps) simp
  next
    case False
    then obtain ds where "nat_digits (n div 10) = ds @ [digit_char (n div 10 mod 10)]"
      and "ds = [] \<or> (\<exists>m. hd ds = digit_char m)"
      using "1.IH" by blast
    then have "nat_digits n = (ds @ [digit_char (n div 10 mod 10)]) @ [digit_char (n mod 10)] \<and>
        (\<exists>m. hd (ds @ [digit_char (n div 10 mod 10)]) = digit_char m)"
      using False by (subst nat_digits.simps) (cases ds; auto)
    then show ?thesis by blast
  qed
qed

lemma int_digits_nat_digits:
  "int_digits acc p (nat_digits n @ rest) =
     int_digits (acc * 10 ^ length (nat_digits n) + int n) True rest"
proof (induction n arbitrary: acc p rest rule: nat_digits.induct)
  case (1 n)
  show ?case
  proof (cases "n < 10")
    case True
    then have "nat_digits n = [digit_char n]"
      by (subst nat_digits.simps) simp
    with True show ?thesis
      by (simp add: digit_char_props mult.commute)
  next
    case False
    then have n: "nat_digits n = nat_digits (n div 10) @ [digit_char (n mod 10)]"
      by (subst nat_digits.simps) simp
    have "int_digits acc p (nat_digits n @ rest) =
        int_digits acc p (nat_digits (n div 10) @ digit_char (n mod 10) # rest)"
      by (simp add: n)
    also have "\<dots> = int_digits (acc * 10 ^ length (nat_digits (n div 10)) + int (n div 10)) True
        (digit_char (n mod 10) # rest)"
      using False by (rule "1.IH")
    also have "\<dots> = int_digits
        (10 * (acc * 10 ^ length (nat_digits (n div 10)) + int (n div 10)) + int (n mod 10)) True rest"
      by (simp add: digit_char_props)
    also have "10 * (acc * 10 ^ length (nat_digits (n div 10)) + int (n div 10)) + int (n mod 10) =
        acc * 10 ^ length (nat_digits n) + int n"
    proof -
      have "int n = 10 * int (n div 10) + int (n mod 10)"
        by (metis mult_div_mod_eq of_nat_add of_nat_mult of_nat_numeral)
      then show ?thesis
        by (simp add: n algebra_simps)
    qed
    finally show ?thesis .
  qed
qed

lemma py_int_nat_digits: "int_digits 0 False (nat_digits n) = Some (int n)"
  using int_digits_nat_digits [of 0 False n "[]"] by simp

lemma int_trim_nat_digits:
  "rev (dropWhile int_isspace (rev (dropWhile int_isspace (pre @ nat_digits n)))) = pre @ nat_digits n"
  if "pre = [] \<or> pre = ''-''"
proof -
  obtain ds where ds: "nat_digits n = ds @ [digit_char (n mod 10)]"
    and h: "ds = [] \<or> (\<exists>m. hd ds = digit_char m)"
    using nat_digits_shape by blast
  have minus: "\<not> int_isspace (CHR ''-'')"
    by (simp add: int_isspace_def)
  have "dropWhile int_isspace (pre @ nat_digits n) = pre @ nat_digits n"
    using that h minus by (cases ds) (auto simp: ds digit_char_props)
  moreover have "dropWhile int_isspace (rev (pre @ nat_digits n)) = rev (pre @ nat_digits n)"
    by (simp add: ds digit_char_props)
  ultimately show ?thesis by simp
qed

lemma py_int_py_str: "py_int (py_str b) = Some b"
proof (cases "b < 0")
  case True
  have "rev (dropWhile int_isspace (rev (dropWhile int_isspace (''-'' @ nat_digits (nat (- b)))))) =
      ''-'' @ nat_digits (nat (- b))"
    by (rule int_trim_nat_digits) simp
  with True show ?thesis
    by (simp add: py_int_def py_str_def py_int_nat_digits)
next
  case False
  obtain ds where ds: "nat_digits (nat b) = ds @ [digit_char (nat b mod 10)]"
    and h: "ds = [] \<or> (\<exists>m. hd ds = digit_char m)"
    using nat_digits_shape by blast
  then obtain c cs where c: "nat_digits (nat b) = c # cs" and "\<exists>m. c = digit_char m"
    by (cases ds) auto
  then have sign: "c \<noteq> CHR ''-''" "c \<noteq> CHR ''+''"
    using digit_char_props(4,5) by auto
  have "rev (dropWhile int_isspace (rev (dropWhile int_isspace ([] @ nat_digits (nat b))))) =
      [] @ nat_digits (nat b)"
    by (rule int_trim_nat_digits) simp
  then have "py_int (py_str b) = int_digits 0 False (nat_digits (nat b))"
    using False sign by (simp add: py_int_def py_str_def c)
  with False show ?thesis
    by (simp add: py_int_nat_digits)
qed

section \<open>The branch id of the header\<close>

lemma sublist_skip: "sublist x b \<Longrightarrow> sublist x (a @ b)"
  by (metis append.assoc sublist_def)

lemma tag_free_msh:
  assumes "k \<in> set (''MSH.99'' # optional_keys)"
  shows "tag_free k (build_msh_xml env ''CLIENT_ADD'' None)"
proof -
  have v: "tag_free k' (now_ts env)" "tag_free k' (msg_id env)" "tag_free k' []" for k'
    by (simp_all add: tag_free_clean now_ts_clean msg_id_clean)
  from assms have "k \<in> {''MSH.99'', ''MIDNAME'', ''EMAIL'', ''PHONE'', ''GENDER'', ''SNILS'', ''NSP'',
      ''CHECKMODE'', ''REFUSECALL'', ''REFUSESMS''}"
    by (simp add: optional_keys_def)
  then show ?thesis
    unfolding build_msh_xml_def Let_def option.case EXTERNAL_SYSTEM_ID_def
    by (elim insertE emptyE; hypsubst; intro tag_free_append v;
        simp add: tag_free_def diverge_def)
qed

text \<open>
  C6: the header that \<open>client_add\<close> builds, for the message type \<open>CLIENT_ADD\<close> and
  without a branch id, holds neither a start tag nor an end tag of \<open>MSH.99\<close>; the header
  that \<open>clients_change_list\<close> builds for the branch \<open>b\<close> holds the element \<open>MSH.99\<close>
  whose content is the decimal numeral of \<open>b\<close>, which reads back as \<open>b\<close>.
\<close>

theorem branch_id_in_header:
  "\<not> sublist ''<MSH.99'' (build_msh_xml env ''CLIENT_ADD'' None) \<and>
   \<not> sublist ''</MSH.99'' (build_msh_xml env ''CLIENT_ADD'' None) \<and>
   sublist (''<MSH.99>'' @ py_str b @ ''</MSH.99>'')
     (build_msh_xml env ''CLIENTS_CHANGE_LIST'' (Some b)) \<and>
   py_int (py_str b) = Some b"
proof -
  have "tag_free ''MSH.99'' (build_msh_xml env ''CLIENT_ADD'' None)"
    by (rule tag_free_msh) simp
  then have "\<not> sublist ''<MSH.99'' (build_msh_xml env ''CLIENT_ADD'' None)"
    and "\<not> sublist ''</MSH.99'' (build_msh_xml env ''CLIENT_ADD'' None)"
    using tag_free_no_start_tag tag_free_no_end_tag by auto
  moreover have "sublist x (build_msh_xml env ''CLIENTS_CHANGE_LIST'' (Some b))"
    if "x = ''<MSH.99>'' @ py_str b @ ''</MSH.99>''" for x
    unfolding build_msh_xml_def Let_def option.case that [symmetric]
    by (intro sublist_append_rightI sublist_skip)
  ultimately show ?thesis
    by (simp add: py_int_py_str)
qed

section \<open>Register Patient: the fields of the request body\<close>

lemma sublist_head3: "sublist (a @ v @ b) (a @ v @ b @ r)"
  by (metis append.assoc sublist_append_rightI)

lemma client_add_xml_body_Inr:
  assumes "client_add_xml_body msh patient = Inr xml_body"
  shows "\<exists>lastname firstname bdate.
           patient ''LASTNAME'' = Some lastname \<and> patient ''FIRSTNAME'' = Some firstname \<and>
           patient ''BDATE'' = Some bdate \<and>
           xml_body = client_add_document msh patient lastname firstname bdate"
  using assms
  by (auto simp: client_add_xml_body_def getitem_def split: option.splits)

lemma required_in_document:
  "sublist (''<LASTNAME>'' @ lastname @ ''</LASTNAME>'')
     (client_add_document msh patient lastname firstname bdate)"
  "sublist (''<FIRSTNAME>'' @ firstname @ ''</FIRSTNAME>'')
     (client_add_document msh patient lastname firstname bdate)"
  "sublist (''<BDATE>'' @ bdate @ ''</BDATE>'')
     (client_add_document msh patient lastname firstname bdate)"
  unfolding client_add_document_def
  by (intro sublist_head3 sublist_skip)+

lemma opt_in_document:
  assumes "key \<in> set optional_keys"
  shows "sublist (opt patient key) (client_add_document msh patient lastname firstname bdate)"
proof -
  from assms have "key \<in> {''MIDNAME'', ''EMAIL'', ''PHONE'', ''GENDER'', ''SNILS'', ''NSP'',
      ''CHECKMODE'', ''REFUSECALL'', ''REFUSESMS''}"
    by (simp add: optional_keys_def)
  then show ?thesis
    unfolding client_add_document_def
    by (elim insertE emptyE; hypsubst; intro sublist_append_rightI sublist_skip)
qed

lemma tag_free_element:
  assumes "diverge k k'" and "k \<noteq> []" and "k' \<noteq> []"
    and "hd k \<noteq> CHR ''/''" and "hd k' \<noteq> CHR ''/''"
    and "CHR ''<'' \<notin> set k'" and "CHR ''<'' \<notin> set val"
  shows "tag_free k (''<'' @ k' @ ''>'' @ val @ ''</'' @ k' @ ''>'')"
proof -
  have a: "after_lt (''<'' @ k' @ ''>'' @ val @ ''</'' @ k' @ ''>'') =
      [k' @ ''>'' @ val @ ''</'' @ k' @ ''>'', ''/'' @ k' @ ''>'']"
    using assms(6,7) by (simp add: after_lt_append after_lt_clean)
  have "diverge k (k' @ ''>'' @ val @ ''</'' @ k' @ ''>'')"
    using assms(1) by (rule diverge_append)
  moreover have "diverge (CHR ''/'' # k) (k' @ ''>'' @ val @ ''</'' @ k' @ ''>'')"
    using assms(3,5) by (cases k') (auto simp: diverge_def)
  moreover have "diverge k (''/'' @ k' @ ''>'')"
    using assms(2,4) by (cases k) (auto simp: diverge_def)
  moreover have "diverge (CHR ''/'' # k) (''/'' @ k' @ ''>'')"
    using diverge_append [OF assms(1), of "''>''"] by (simp add: diverge_def)
  ultimately show ?thesis
    unfolding tag_free_def a by simp
qed

lemma tag_free_opt:
  assumes "k \<in> set optional_keys" and "k' \<in> set optional_keys"
    and "get patient k [] = []" and "CHR ''<'' \<notin> set (get patient k' [])"
  shows "tag_free k (opt patient k')"
proof (cases "get patient k' [] = []")
  case True
  then show ?thesis
    by (simp add: opt_def tag_free_def)
next
  case False
  with assms(3) have ne: "k \<noteq> k'" by auto
  have keys: "list_all (\<lambda>a. a \<noteq> [] \<and> hd a \<noteq> CHR ''/'' \<and> CHR ''<'' \<notin> set a \<and>
      list_all (\<lambda>b. a = b \<or> diverge a b) optional_keys) optional_keys"
    by (simp add: optional_keys_def diverge_def)
  from keys assms(1,2) ne have "diverge k k'" "k \<noteq> []" "k' \<noteq> []"
    "hd k \<noteq> CHR ''/''" "hd k' \<noteq> CHR ''/''" "CHR ''<'' \<notin> set k'"
    unfolding list_all_iff by blast+
  then have "tag_free k (''<'' @ k' @ ''>'' @ get patient k' [] @ ''</'' @ k' @ ''>'')"
    using assms(4) by (rule tag_free_element)
  with False show ?thesis
    by (simp add: opt_def)
qed

lemma tag_free_document:
  assumes "k \<in> set optional_keys" and "get patient k [] = []"
    and "CHR ''<'' \<notin> set lastname" and "CHR ''<'' \<notin> set firstname" and "CHR ''<'' \<notin> set bdate"
    and "\<forall>k' \<in> set optional_keys. CHR ''<'' \<notin> set (get patient k' [])"
  shows "tag_free k (client_add_document (build_msh_xml env ''CLIENT_ADD'' None)
    patient lastname firstname bdate)"
proof -
  have msh: "tag_free k (build_msh_xml env ''CLIENT_ADD'' None)"
    using assms(1) by (simp add: tag_free_msh)
  have vals: "tag_free k lastname" "tag_free k firstname" "tag_free k bdate"
    using assms(3-5) by (simp_all add: tag_free_clean)
  have "\<forall>k' \<in> set optional_keys. tag_free k (opt patient k')"
    using assms(1,2,6) by (auto intro: tag_free_opt)
  then have opts: "tag_free k (opt patient ''MIDNAME'')" "tag_free k (opt patient ''EMAIL'')"
    "tag_free k (opt patient ''PHONE'')" "tag_free k (opt patient ''GENDER'')"
    "tag_free k (opt patient ''SNILS'')" "tag_free k (opt patient ''NSP'')"
    "tag_free k (opt patient ''CHECKMODE'')" "tag_free k (opt patient ''REFUSECALL'')"
    "tag_free k (opt patient ''REFUSESMS'')"
    by (simp_all add: optional_keys_def)
  have lits: "list_all (\<lambda>k. list_all (tag_free k)
      [''<?xml version=\"1.0\" encoding=\"UTF-8\"?>\<newline>'',
       ''<WEB_CLIENT_ADD xmlns=\"http://sdsys.ru/\">\<newline>'',
       ''    '', ''\<newline>'', ''    <CLIENT_ADD_IN>\<newline>'', ''        '',
       ''<LASTNAME>'', ''</LASTNAME>'', ''<FIRSTNAME>'', ''</FIRSTNAME>'',
       ''<BDATE>'', ''</BDATE>'', ''    </CLIENT_ADD_IN>\<newline>'', ''</WEB_CLIENT_ADD>''])
    optional_keys"
    by (simp add: optional_keys_def tag_free_def diverge_def)
  from lits assms(1) have lit: "list_all (tag_free k)
      [''<?xml version=\"1.0\" encoding=\"UTF-8\"?>\<newline>'',
       ''<WEB_CLIENT_ADD xmlns=\"http://sdsys.ru/\">\<newline>'',
       ''    '', ''\<newline>'', ''    <CLIENT_ADD_IN>\<newline>'', ''        '',
       ''<LASTNAME>'', ''</LASTNAME>'', ''<FIRSTNAME>'', ''</FIRSTNAME>'',
       ''<BDATE>'', ''</BDATE>'', ''    </CLIENT_ADD_IN>\<newline>'', ''</WEB_CLIENT_ADD>'']"
    unfolding list_all_iff [of _ optional_keys] by blast
  then have l: "tag_free k ''<?xml version=\"1.0\" encoding=\"UTF-8\"?>\<newline>''"
    "tag_free k ''<WEB_CLIENT_ADD xmlns=\"http://sdsys.ru/\">\<newline>''"
    "tag_free k ''    ''" "tag_free k ''\<newline>''" "tag_free k ''    <CLIENT_ADD_IN>\<newline>''"
    "tag_free k ''        ''" "tag_free k ''<LASTNAME>''" "tag_free k ''</LASTNAME>''"
    "tag_free k ''<FIRSTNAME>''" "tag_free k ''</FIRSTNAME>''" "tag_free k ''<BDATE>''"
    "tag_free k ''</BDATE>''" "tag_free k ''    </CLIENT_ADD_IN>\<newline>''"
    "tag_free k ''</WEB_CLIENT_ADD>''"
    by simp_all
  show ?thesis
    unfolding client_add_document_def
    by (intro tag_free_append msh vals opts l)
qed

text \<open>
  C5, as the specification states it, fails: the values are written into the body as they
  are, so a record without \<open>EMAIL\<close> whose last name is the text \<open><EMAIL>x</EMAIL>\<close> gives
  a body that contains an \<open>EMAIL\<close> element.
\<close>

theorem optional_field_counterexample:
  "injected_patient ''EMAIL'' = None \<and>
   (case client_add_xml_body (build_msh_xml (canned_env accepted_add_doc) ''CLIENT_ADD'' None)
           injected_patient of
      Inl e \<Rightarrow> False
    | Inr xml_body \<Rightarrow> sublist ''<EMAIL>x</EMAIL>'' xml_body)"
proof -
  let ?msh = "build_msh_xml (canned_env accepted_add_doc) ''CLIENT_ADD'' None"
  have b: "client_add_xml_body ?msh injected_patient =
      Inr (client_add_document ?msh injected_patient ''<EMAIL>x</EMAIL>'' ''Jo'' ''19850315'')"
    by (simp add: client_add_xml_body_def getitem_def injected_patient_def)
  have "sublist (''<LASTNAME>'' @ ''<EMAIL>x</EMAIL>'' @ ''</LASTNAME>'')
      (client_add_document ?msh injected_patient ''<EMAIL>x</EMAIL>'' ''Jo'' ''19850315'')"
    by (rule required_in_document)
  moreover have "sublist ''<EMAIL>x</EMAIL>'' (''<LASTNAME>'' @ ''<EMAIL>x</EMAIL>'' @ ''</LASTNAME>'')"
    by (rule sublist_appendI)
  ultimately have "sublist ''<EMAIL>x</EMAIL>''
      (client_add_document ?msh injected_patient ''<EMAIL>x</EMAIL>'' ''Jo'' ''19850315'')"
    by (rule sublist_order.order.trans [rotated])
  then show ?thesis
    by (simp add: b) (simp add: injected_patient_def)
qed

text \<open>
  C5, amended: for every patient record that has the three required keys, the body of
  \<open>CLIENT_ADD\<close> contains the element of \<open>LASTNAME\<close>, of \<open>FIRSTNAME\<close> and of \<open>BDATE\<close>
  with the value of the field, also when that value is the empty string, and the element
  of every optional field whose value is not empty; and, provided that no field value
  contains the character \<open><\<close>, the body holds no start tag and no end tag of an
  optional field that is absent or empty.
\<close>

theorem client_add_body_fields:
  assumes "client_add_xml_body (build_msh_xml env ''CLIENT_ADD'' None) patient = Inr xml_body"
  shows "(\<forall>key \<in> set required_keys.
            patient key \<noteq> None \<and>
            sublist (''<'' @ key @ ''>'' @ get patient key [] @ ''</'' @ key @ ''>'') xml_body) \<and>
         (\<forall>key \<in> set optional_keys.
            (get patient key [] \<noteq> [] \<longrightarrow>
               sublist (''<'' @ key @ ''>'' @ get patient key [] @ ''</'' @ key @ ''>'') xml_body) \<and>
            (get patient key [] = [] \<and>
             (\<forall>k \<in> set (required_keys @ optional_keys). CHR ''<'' \<notin> set (get patient k [])) \<longrightarrow>
               \<not> sublist (''<'' @ key) xml_body \<and> \<not> sublist (''</'' @ key) xml_body))"
proof -
  let ?msh = "build_msh_xml env ''CLIENT_ADD'' None"
  obtain lastname firstname bdate where
    p: "patient ''LASTNAME'' = Some lastname" "patient ''FIRSTNAME'' = Some firstname"
      "patient ''BDATE'' = Some bdate"
    and body: "xml_body = client_add_document ?msh patient lastname firstname bdate"
    using client_add_xml_body_Inr [OF assms] by blast
  have required: "\<forall>key \<in> set required_keys.
      patient key \<noteq> None \<and>
      sublist (''<'' @ key @ ''>'' @ get patient key [] @ ''</'' @ key @ ''>'') xml_body"
    using required_in_document [where lastname = lastname and firstname = firstname
        and bdate = bdate and msh = ?msh and patient = patient]
    by (simp add: required_keys_def get_def p body)
  have present: "sublist (''<'' @ key @ ''>'' @ get patient key [] @ ''</'' @ key @ ''>'') xml_body"
    if "key \<in> set optional_keys" and "get patient key [] \<noteq> []" for key
    using opt_in_document [OF that(1), of patient ?msh lastname firstname bdate] that(2)
    by (simp add: opt_def body)
  have absent: "\<not> sublist (''<'' @ key) xml_body \<and> \<not> sublist (''</'' @ key) xml_body"
    if "key \<in> set optional_keys" and "get patient key [] = []"
      and clean: "\<forall>k \<in> set (required_keys @ optional_keys). CHR ''<'' \<notin> set (get patient k [])"
    for key
  proof -
    from clean p have "CHR ''<'' \<notin> set lastname" "CHR ''<'' \<notin> set firstname"
      "CHR ''<'' \<notin> set bdate"
      by (auto simp: required_keys_def get_def)
    moreover from clean
    have "\<forall>k' \<in> set optional_keys. CHR ''<'' \<notin> set (get patient k' [])"
      by simp
    ultimately have "tag_free key xml_body"
      unfolding body using that(1,2) by (intro tag_free_document)
    then show ?thesis
      using tag_free_no_start_tag tag_free_no_end_tag by auto
  qed
  from required present absent show ?thesis
    by blast
qed

theorem client_add_body_fields_witness:
  "case client_add_xml_body (build_msh_xml (canned_env accepted_add_doc) ''CLIENT_ADD'' None)
          sparse_patient of
     Inl e \<Rightarrow> False
   | Inr xml_body \<Rightarrow>
       sublist ''<LASTNAME>Doe</LASTNAME>'' xml_body \<and>
       sublist ''<FIRSTNAME></FIRSTNAME>'' xml_body \<and>
       sublist ''<EMAIL>jo@example.com</EMAIL>'' xml_body \<and>
       \<not> sublist ''<PHONE'' xml_body \<and> \<not> sublist ''</PHONE'' xml_body \<and>
       \<not> sublist ''<MIDNAME'' xml_body"
proof -
  let ?msh = "build_msh_xml (canned_env accepted_add_doc) ''CLIENT_ADD'' None"
  obtain xml_body where b: "client_add_xml_body ?msh sparse_patient = Inr xml_body"
    by (simp add: client_add_xml_body_def getitem_def sparse_patient_def)
  have clean: "\<forall>k \<in> set (required_keys @ optional_keys).
      CHR ''<'' \<notin> set (get sparse_patient k [])"
    by (simp add: required_keys_def optional_keys_def get_def sparse_patient_def)
  have v: "get sparse_patient ''LASTNAME'' [] = ''Doe''" "get sparse_patient ''FIRSTNAME'' [] = []"
    "get sparse_patient ''EMAIL'' [] = ''jo@example.com''" "get sparse_patient ''PHONE'' [] = []"
    "get sparse_patient ''MIDNAME'' [] = []"
    by (simp_all add: get_def sparse_patient_def)
  have k: "''LASTNAME'' \<in> set required_keys" "''FIRSTNAME'' \<in> set required_keys"
    "''EMAIL'' \<in> set optional_keys" "''PHONE'' \<in> set optional_keys"
    "''MIDNAME'' \<in> set optional_keys"
    by (simp_all add: required_keys_def optional_keys_def)
  note f = client_add_body_fields [OF b]
  have "sublist (''<'' @ ''LASTNAME'' @ ''>'' @ get sparse_patient ''LASTNAME'' [] @
      ''</'' @ ''LASTNAME'' @ ''>'') xml_body"
    using f k(1) by blast
  moreover have "sublist (''<'' @ ''FIRSTNAME'' @ ''>'' @ get sparse_patient ''FIRSTNAME'' [] @
      ''</'' @ ''FIRSTNAME'' @ ''>'') xml_body"
    using f k(2) by blast
  moreover have "sublist (''<'' @ ''EMAIL'' @ ''>'' @ get sparse_patient ''EMAIL'' [] @
      ''</'' @ ''EMAIL'' @ ''>'') xml_body"
    using f k(3) v(3) by (metis (no_types, lifting) list.distinct(1))
  moreover have "\<not> sublist (''<'' @ ''PHONE'') xml_body \<and> \<not> sublist (''</'' @ ''PHONE'') xml_body"
    using f k(4) v(4) clean by blast
  moreover have "\<not> sublist (''<'' @ ''MIDNAME'') xml_body"
    using f k(5) v(5) clean by blast
  ultimately show ?thesis
    by (simp add: b v)
qed

section \<open>Round trip through the parse path\<close>

subsection \<open>Encoding and decoding\<close>

lemma unat_byte: "n < 256 \<Longrightarrow> unat (of_nat n :: 8 word) = n"
  by (simp add: unat_of_nat)

lemma utf8_decode_append_char:
  "utf8_decode ((let n = of_char c :: nat in
      if n < 128 then [of_nat n] else [of_nat (192 + n div 64), of_nat (128 + n mod 64)]) @ bs) =
   map_option ((#) c) (utf8_decode bs)"
proof (cases "(of_char c :: nat) < 128")
  case True
  define b :: "8 word" where "b = of_nat (of_char c)"
  have u: "unat b = of_char c"
    unfolding b_def by (rule unat_byte) simp
  have "(let n = of_char c :: nat in
      if n < 128 then [of_nat n] else [of_nat (192 + n div 64), of_nat (128 + n mod 64)]) @ bs =
      b # bs"
    using True by (simp add: b_def Let_def)
  moreover have "utf8_decode (b # bs) = map_option ((#) c) (utf8_decode bs)"
    using True by (cases bs) (simp_all add: u)
  ultimately show ?thesis by simp
next
  case False
  define n :: nat where "n = of_char c"
  define b1 :: "8 word" where "b1 = of_nat (192 + n div 64)"
  define b2 :: "8 word" where "b2 = of_nat (128 + n mod 64)"
  have n: "128 \<le> n" "n < 256"
    using False by (simp_all add: n_def)
  then have d: "n div 64 = 2 \<or> n div 64 = 3"
    by auto
  have hi: "unat b1 = 192 + n div 64"
    unfolding b1_def using d by (intro unat_byte) auto
  have lo: "unat b2 = 128 + n mod 64"
    unfolding b2_def by (rule unat_byte) simp
  have "(unat b1 - 192) * 64 + (unat b2 - 128) = n"
    by (simp add: hi lo)
  then have ch: "char_of ((unat b1 - 192) * 64 + (unat b2 - 128)) = c"
    by (simp add: n_def)
  have "(let n = of_char c :: nat in
      if n < 128 then [of_nat n] else [of_nat (192 + n div 64), of_nat (128 + n mod 64)]) @ bs =
      b1 # b2 # bs"
    using False by (simp add: b1_def b2_def n_def Let_def)
  moreover have "utf8_decode (b1 # b2 # bs) = map_option ((#) c) (utf8_decode bs)"
  proof -
    have c1: "\<not> unat b1 < 128" "unat b1 = 194 \<or> unat b1 = 195" "128 \<le> unat b2" "unat b2 < 192"
      using hi lo d by auto
    have "utf8_decode (b1 # b2 # bs) =
        map_option ((#) (char_of ((unat b1 - 192) * 64 + (unat b2 - 128)))) (utf8_decode bs)"
      unfolding utf8_decode.simps using c1 by (simp only: if_False if_True simp_thms)
    then show ?thesis
      by (simp only: ch)
  qed
  ultimately show ?thesis by simp
qed

lemma utf8_decode_encode: "utf8_decode (utf8_encode s) = Some s"
proof (induction s)
  case Nil
  then show ?case by (simp add: utf8_encode_def)
next
  case (Cons c s)
  have "utf8_encode (c # s) =
      (let n = of_char c :: nat in
        if n < 128 then [of_nat n] else [of_nat (192 + n div 64), of_nat (128 + n mod 64)]) @
      utf8_encode s"
    by (simp add: utf8_encode_def)
  then show ?case
    using Cons.IH by (simp only: utf8_decode_append_char) simp
qed

lemma send_request_echo:
  "fst (send_request (echo_env parser) xml_body filial_id) =
     (case parser (re_sub_xmlns xml_body) of None \<Rightarrow> Inl ParseError | Some root \<Rightarrow> Inr root)"
  by (simp add: send_request_def ssl_context_def echo_env_def post_request_def Let_def
      utf8_decode_encode split: option.splits)

subsection \<open>Where the namespace pattern matches\<close>

lemma literal_Some: "literal p s = Some r \<Longrightarrow> s = p @ r"
  by (auto simp: literal_def prefix_def split: if_splits)

lemma match_xmlns_quote:
  assumes "match_xmlns s = Some r"
  shows "\<exists>pre post. s = pre @ CHR 0x22 # post \<and> (\<forall>c \<in> set pre. pattern_char c)"
proof -
  from assms obtain r2 where r2: "literal ''xmlns'' (dropWhile py_isspace s) = Some r2"
    by (auto simp: match_xmlns_def split: if_splits option.splits)
  define g where "g = (case r2 of
      c # t \<Rightarrow> if c = CHR '':'' \<and> takeWhile re_word t \<noteq> [] then CHR '':'' # takeWhile re_word t else []
    | [] \<Rightarrow> [])"
  define r3 where "r3 = (case r2 of
      c # t \<Rightarrow> if c = CHR '':'' \<and> takeWhile re_word t \<noteq> [] then dropWhile re_word t else r2
    | [] \<Rightarrow> r2)"
  have r23: "r2 = g @ r3"
    by (auto simp: g_def r3_def split: list.splits)
  have g: "\<forall>c \<in> set g. pattern_char c"
    by (auto simp: g_def pattern_char_def split: list.splits dest: set_takeWhileD)
  from assms r2 obtain r4 where r4: \<open>literal ''="'' r3 = Some r4\<close>
    by (auto simp: match_xmlns_def r3_def Let_def split: if_splits option.splits)
  have "s = takeWhile py_isspace s @ dropWhile py_isspace s"
    by simp
  also have "dropWhile py_isspace s = ''xmlns'' @ r2"
    using r2 by (rule literal_Some)
  also have "r2 = g @ ''='' @ CHR 0x22 # r4"
    using literal_Some [OF r4] r23 by simp
  finally have "s = (takeWhile py_isspace s @ ''xmlns'' @ g @ ''='') @ CHR 0x22 # r4"
    by simp
  moreover have "\<forall>c \<in> set (takeWhile py_isspace s @ ''xmlns'' @ g @ ''=''). pattern_char c"
  proof -
    have "\<forall>c \<in> set (takeWhile py_isspace s). pattern_char c"
      by (auto simp: pattern_char_def dest: set_takeWhileD)
    moreover have "\<forall>c \<in> set ''xmlns=''. pattern_char c"
      by (simp add: pattern_char_def re_word_def py_isalnum_def)
    ultimately show ?thesis
      using g by auto
  qed
  ultimately show ?thesis
    by blast
qed

lemma no_match_before_gt:
  assumes "CHR 0x22 \<notin> set a"
  shows "match_xmlns (a @ CHR ''>'' # b) = None"
proof (rule ccontr)
  assume "match_xmlns (a @ CHR ''>'' # b) \<noteq> None"
  then obtain r where "match_xmlns (a @ CHR ''>'' # b) = Some r"
    by auto
  then obtain pre post where eq: "a @ CHR ''>'' # b = pre @ CHR 0x22 # post"
    and pre: "\<forall>c \<in> set pre. pattern_char c"
    using match_xmlns_quote by blast
  have gt: "\<not> pattern_char (CHR ''>'')"
    by (simp add: pattern_char_def py_isspace_def re_word_def py_isalnum_def)
  have quote: "\<not> pattern_char (CHR 0x22)"
    by (simp add: pattern_char_def py_isspace_def re_word_def py_isalnum_def)
  let ?P = "\<lambda>c. c \<noteq> CHR 0x22"
  have "takeWhile ?P (pre @ CHR 0x22 # post) = pre"
    using pre quote by (subst takeWhile_append2) auto
  moreover have "takeWhile ?P (a @ CHR ''>'' # b) = a @ CHR ''>'' # takeWhile ?P b"
    using assms by (subst takeWhile_append2) auto
  ultimately have "pre = a @ CHR ''>'' # takeWhile ?P b"
    using eq by simp
  then have "CHR ''>'' \<in> set pre"
    by simp
  with pre gt show False by blast
qed

lemma re_sub_xmlns_skip:
  assumes "CHR 0x22 \<notin> set a"
  shows "re_sub_xmlns (a @ CHR ''>'' # b) = a @ CHR ''>'' # re_sub_xmlns b"
  using assms
proof (induction a)
  case Nil
  have "match_xmlns (CHR ''>'' # b) = None"
    using no_match_before_gt [of "[]" b] by simp
  then show ?case by simp
next
  case (Cons c a)
  then have "match_xmlns ((c # a) @ CHR ''>'' # b) = None"
    by (intro no_match_before_gt) simp
  with Cons show ?case by simp
qed

lemma re_sub_xmlns_quote_free:
  assumes "CHR 0x22 \<notin> set s"
  shows "re_sub_xmlns s = s"
  using assms
proof (induction s)
  case Nil
  then show ?case by simp
next
  case (Cons c s)
  have "match_xmlns (c # s) = None"
  proof (rule ccontr)
    assume "match_xmlns (c # s) \<noteq> None"
    then obtain pre post where "c # s = pre @ CHR 0x22 # post"
      using match_xmlns_quote by fastforce
    then have "CHR 0x22 \<in> set (c # s)"
      by (metis in_set_conv_decomp)
    with Cons.prems show False by simp
  qed
  with Cons show ?case by simp
qed

subsection \<open>The body, line by line\<close>

lemma document_items:
  \<open>client_add_document msh patient lastname firstname bdate =
     ''<?xml version="1.0" encoding="UTF-8"?>\<newline>'' @
     ''<WEB_CLIENT_ADD xmlns="http://sdsys.ru/">\<newline>'' @
     ''    '' @ msh @ ''\<newline>'' @
     ''    <CLIENT_ADD_IN>\<newline>'' @
     concat (map item_text (client_add_items patient lastname firstname bdate)) @
     ''    </CLIENT_ADD_IN>\<newline>'' @
     ''</WEB_CLIENT_ADD>''\<close>
  by (simp add: client_add_document_def client_add_items_def item_text_def opt_def Let_def)

lemma strip_prologue:
  \<open>re_sub_xmlns (''<?xml version="1.0" encoding="UTF-8"?>\<newline>'' @
       ''<WEB_CLIENT_ADD xmlns="http://sdsys.ru/">\<newline>'' @ rest) =
     ''<?xml version="1.0" encoding="UTF-8"?>\<newline>'' @
       ''<WEB_CLIENT_ADD'' @ re_sub_xmlns (''>\<newline>'' @ rest)\<close>
  by (simp add: match_xmlns_def literal_def py_isspace_def)

lemma msh_quote_free: "CHR 0x22 \<notin> set (build_msh_xml env ''CLIENT_ADD'' None)"
proof -
  have "CHR 0x22 \<notin> set (now_ts env)" "CHR 0x22 \<notin> set (msg_id env)"
    using now_ts_chars [of env] msg_id_chars [of env] by auto
  then show ?thesis
    by (simp add: build_msh_xml_def EXTERNAL_SYSTEM_ID_def)
qed

lemma stripped_document:
  assumes "CHR 0x22 \<notin> set msh"
  shows \<open>re_sub_xmlns (client_add_document msh patient lastname firstname bdate) =
     ''<?xml version="1.0" encoding="UTF-8"?>\<newline>'' @ ''<WEB_CLIENT_ADD>\<newline>'' @
     ''    '' @ msh @ ''\<newline>'' @ ''    <CLIENT_ADD_IN>\<newline>'' @ ''        <LASTNAME>'' @
     re_sub_xmlns (lastname @ ''</LASTNAME>\<newline>'' @
       concat (map item_text (tl (client_add_items patient lastname firstname bdate))) @
       ''    </CLIENT_ADD_IN>\<newline>'' @ ''</WEB_CLIENT_ADD>'')\<close>
proof -
  let ?items = "client_add_items patient lastname firstname bdate"
  let ?closing = "''    </CLIENT_ADD_IN>\<newline>'' @ ''</WEB_CLIENT_ADD>''"
  let ?a = "''>\<newline>'' @ ''    '' @ msh @ ''\<newline>'' @ ''    <CLIENT_ADD_IN>\<newline>'' @ ''        <LASTNAME''"
  let ?b = "lastname @ ''</LASTNAME>\<newline>'' @ concat (map item_text (tl ?items)) @ ?closing"
  have "''>\<newline>'' @ ''    '' @ msh @ ''\<newline>'' @ ''    <CLIENT_ADD_IN>\<newline>'' @
      concat (map item_text ?items) @ ?closing = ?a @ CHR ''>'' # ?b"
    by (simp add: client_add_items_def item_text_def)
  then have "re_sub_xmlns (''>\<newline>'' @ ''    '' @ msh @ ''\<newline>'' @
      ''    <CLIENT_ADD_IN>\<newline>'' @ concat (map item_text ?items) @ ?closing) =
      re_sub_xmlns (?a @ CHR ''>'' # ?b)"
    by (rule arg_cong)
  also have "\<dots> = ?a @ CHR ''>'' # re_sub_xmlns ?b"
    by (rule re_sub_xmlns_skip) (use assms in simp)
  finally have "re_sub_xmlns (''>\<newline>'' @ ''    '' @ msh @ ''\<newline>'' @
      ''    <CLIENT_ADD_IN>\<newline>'' @ concat (map item_text ?items) @ ?closing) =
      ?a @ CHR ''>'' # re_sub_xmlns ?b" .
  then show ?thesis
    unfolding document_items strip_prologue by simp
qed

lemma item_text_quote_free:
  assumes "CHR 0x22 \<notin> set key" and "CHR 0x22 \<notin> set val"
  shows "CHR 0x22 \<notin> set (item_text (key, val, required))"
  using assms by (simp add: item_text_def)

text \<open>
  C9, as the specification states it, fails, whatever the XML parser does: the parse path
  removes every text of the form of a namespace declaration, also inside a value, so the
  record with the last name \<open>Doe xmlns="x"\<close> and the record with the last name \<open>Doe\<close>
  reach the parser as the same text, and no document recovers both.
\<close>

theorem roundtrip_counterexample:
  "\<forall>parser. \<not> (roundtrip_ok parser quoted_patient \<and> roundtrip_ok parser minimal_patient)"
proof (intro allI notI)
  fix parser
  assume ok: "roundtrip_ok parser quoted_patient \<and> roundtrip_ok parser minimal_patient"
  let ?msh = "build_msh_xml (echo_env parser) ''CLIENT_ADD'' None"
  let ?path = "[Self, Descendant ''CLIENT_ADD_IN'', Child ''LASTNAME'']"
  define rest where "rest = ''</LASTNAME>\<newline>'' @
    concat (map item_text (tl (client_add_items minimal_patient ''Doe'' ''Jo'' ''19850315''))) @
    ''    </CLIENT_ADD_IN>\<newline>'' @ ''</WEB_CLIENT_ADD>''"
  have items: "tl (client_add_items quoted_patient l ''Jo'' ''19850315'') =
      tl (client_add_items minimal_patient ''Doe'' ''Jo'' ''19850315'')" for l
    by (simp add: client_add_items_def get_def quoted_patient_def minimal_patient_def)
  have "CHR 0x22 \<notin> set rest"
    by (simp add: rest_def client_add_items_def get_def minimal_patient_def item_text_def)
  then have rest: "re_sub_xmlns rest = rest" "re_sub_xmlns (''Doe'' @ rest) = ''Doe'' @ rest"
    by (intro re_sub_xmlns_quote_free; simp)+
  have \<open>re_sub_xmlns (''Doe xmlns="x"'' @ rest) = ''Doe'' @ re_sub_xmlns rest\<close>
    by (simp add: match_xmlns_def literal_def py_isspace_def)
  then have same: \<open>re_sub_xmlns (''Doe xmlns="x"'' @ rest) = re_sub_xmlns (''Doe'' @ rest)\<close>
    by (simp only: rest)
  have b1: \<open>client_add_xml_body ?msh quoted_patient =
      Inr (client_add_document ?msh quoted_patient ''Doe xmlns="x"'' ''Jo'' ''19850315'')\<close>
    by (simp add: client_add_xml_body_def getitem_def quoted_patient_def)
  have b2: "client_add_xml_body ?msh minimal_patient =
      Inr (client_add_document ?msh minimal_patient ''Doe'' ''Jo'' ''19850315'')"
    by (simp add: client_add_xml_body_def getitem_def minimal_patient_def)
  have \<open>re_sub_xmlns (client_add_document ?msh quoted_patient ''Doe xmlns="x"'' ''Jo'' ''19850315'') =
      re_sub_xmlns (client_add_document ?msh minimal_patient ''Doe'' ''Jo'' ''19850315'')\<close>
    unfolding stripped_document [OF msh_quote_free] items
    using same by (simp only: rest_def append_assoc)
  then have "parsed_back parser quoted_patient = parsed_back parser minimal_patient"
    by (simp add: parsed_back_def b1 b2 send_request_echo)
  with ok obtain root where "recovers root quoted_patient" "recovers root minimal_patient"
    by (auto simp: roundtrip_ok_def split: option.splits)
  then have \<open>findtext root ?path [] = ''Doe xmlns="x"''\<close> "findtext root ?path [] = ''Doe''"
    by (simp_all add: recovers_def required_keys_def quoted_patient_def minimal_patient_def)
  then show False
    by simp
qed

subsection \<open>Reading the body back\<close>

lemma run_append:
  "run st (a @ b) = (case run st a of None \<Rightarrow> None | Some st' \<Rightarrow> run st' b)"
  by (induction a arbitrary: st) (auto split: option.splits)

lemma run_text:
  assumes "b_mode st = Content" and "\<forall>c \<in> set v. text_char c"
  shows "run st v = Some (st\<lparr>b_buf := b_buf st @ v\<rparr>)"
  using assms
proof (induction v arbitrary: st)
  case Nil
  then show ?case by simp
next
  case (Cons c v)
  then have "c \<noteq> CHR ''<''" "text_char c"
    by (auto simp: text_char_def)
  with Cons.prems(1) have "step c st = Some (st\<lparr>b_buf := b_buf st @ [c]\<rparr>)"
    by (simp add: step_def)
  with Cons show ?case
    by simp
qed

lemma run_start_name:
  assumes "b_mode st = StartName n" and "list_all name_char k"
  shows "run st k = Some (st\<lparr>b_mode := StartName (n @ k)\<rparr>)"
  using assms
proof (induction k arbitrary: st n)
  case Nil
  then show ?case by simp
next
  case (Cons c k)
  from Cons.prems have "step c st = Some (st\<lparr>b_mode := StartName (n @ [c])\<rparr>)"
    by (simp add: step_def)
  moreover have "run (st\<lparr>b_mode := StartName (n @ [c])\<rparr>) k =
      Some (st\<lparr>b_mode := StartName (n @ [c])\<rparr>\<lparr>b_mode := StartName ((n @ [c]) @ k)\<rparr>)"
    using Cons.prems by (intro Cons.IH) simp_all
  ultimately show ?case
    by simp
qed

lemma run_end_name:
  assumes "b_mode st = EndName n" and "list_all name_char k"
  shows "run st k = Some (st\<lparr>b_mode := EndName (n @ k)\<rparr>)"
  using assms
proof (induction k arbitrary: st n)
  case Nil
  then show ?case by simp
next
  case (Cons c k)
  from Cons.prems have "step c st = Some (st\<lparr>b_mode := EndName (n @ [c])\<rparr>)"
    by (simp add: step_def)
  moreover have "run (st\<lparr>b_mode := EndName (n @ [c])\<rparr>) k =
      Some (st\<lparr>b_mode := EndName (n @ [c])\<rparr>\<lparr>b_mode := EndName ((n @ [c]) @ k)\<rparr>)"
    using Cons.prems by (intro Cons.IH) simp_all
  ultimately show ?case
    by simp
qed

lemma name_char_not_markup: "name_char c \<Longrightarrow> c \<noteq> CHR ''>'' \<and> c \<noteq> CHR ''/'' \<and> c \<noteq> CHR ''<''"
  by (auto simp: name_char_def name_start_def is_digit_def)

lemma set_tail_sel:
  "tag (set_tail e s) = tag e" "elem_text (set_tail e s) = elem_text e"
  "children (set_tail e s) = children e"
  by (cases e; simp)+

lemma flush_inside:
  assumes "b_stack st = (pn, ptxt, pkids) # fs"
  shows "\<exists>ptxt' pkids'.
      flush st = Some (st\<lparr>b_buf := [], b_stack := (pn, ptxt', pkids') # fs\<rparr>) \<and>
      map (\<lambda>e. (tag e, elem_text e)) pkids' = map (\<lambda>e. (tag e, elem_text e)) pkids \<and>
      list_all (\<lambda>e. children e = []) pkids' = list_all (\<lambda>e. children e = []) pkids"
proof (cases "b_buf st = []")
  case True
  then have "flush st = Some (st\<lparr>b_buf := [], b_stack := (pn, ptxt, pkids) # fs\<rparr>)"
    using assms by (simp add: flush_def)
  then show ?thesis by blast
next
  case False
  show ?thesis
  proof (cases pkids)
    case Nil
    with False assms have "flush st =
        Some (st\<lparr>b_buf := [], b_stack := (pn, Some (b_buf st), []) # fs\<rparr>)"
      by (simp add: flush_def)
    with Nil show ?thesis by blast
  next
    case (Cons e es)
    with False assms have "flush st =
        Some (st\<lparr>b_buf := [], b_stack := (pn, ptxt, set_tail e (b_buf st) # es) # fs\<rparr>)"
      by (simp add: flush_def)
    then show ?thesis
      using Cons
      by (intro exI [of _ ptxt] exI [of _ "set_tail e (b_buf st) # es"]) (simp add: set_tail_sel)
  qed
qed

lemma run_element:
  assumes st: "b_mode st = Content" "b_stack st = (pn, ptxt, pkids) # fs"
    and k: "valid_name k" and v: "\<forall>c \<in> set v. text_char c"
  shows "\<exists>ptxt' pkids'.
      run st (''<'' @ k @ ''>'' @ v @ ''</'' @ k @ ''>'') =
        Some (st\<lparr>b_buf := [],
                 b_stack := (pn, ptxt',
                   Element k [] (if v = [] then None else Some v) None [] # pkids') # fs\<rparr>) \<and>
      map (\<lambda>e. (tag e, elem_text e)) pkids' = map (\<lambda>e. (tag e, elem_text e)) pkids \<and>
      list_all (\<lambda>e. children e = []) pkids' = list_all (\<lambda>e. children e = []) pkids"
proof -
  obtain c k' where kk: "k = c # k'" and c: "name_start c" and k': "list_all name_char k'"
    and kall: "list_all name_char k"
    using k by (cases k) (auto simp: valid_name_def)
  \<comment> \<open>the data before the start tag goes to the parent's text or to the last child's tail\<close>
  obtain ptxt' pkids' where f: "flush st = Some (st\<lparr>b_buf := [], b_stack := (pn, ptxt', pkids') # fs\<rparr>)"
    and sig: "map (\<lambda>e. (tag e, elem_text e)) pkids' = map (\<lambda>e. (tag e, elem_text e)) pkids"
    and leaves: "list_all (\<lambda>e. children e = []) pkids' = list_all (\<lambda>e. children e = []) pkids"
    using flush_inside [OF st(2)] by blast
  define s1 where "s1 = st\<lparr>b_buf := [], b_stack := (pn, ptxt', pkids') # fs, b_mode := TagOpen\<rparr>"
  define s2 where "s2 = s1\<lparr>b_mode := StartName k\<rparr>"
  define s3 where "s3 = s1\<lparr>b_stack := (k, None, []) # (pn, ptxt', pkids') # fs, b_mode := Content\<rparr>"
  define s4 where "s4 = s3\<lparr>b_buf := v\<rparr>"
  define s5 where "s5 = s3\<lparr>b_stack := (k, if v = [] then None else Some v, []) # (pn, ptxt', pkids') # fs,
    b_mode := TagOpen\<rparr>"
  define s6 where "s6 = s5\<lparr>b_mode := EndName k\<rparr>"
  define s7 where "s7 = st\<lparr>b_buf := [], b_stack := (pn, ptxt',
    Element k [] (if v = [] then None else Some v) None [] # pkids') # fs\<rparr>"
  have 1: "run st ''<'' = Some s1"
    using st(1) f by (simp add: step_def s1_def)
  have 2: "run s1 k = Some s2"
  proof -
    have "step c s1 = Some (s1\<lparr>b_mode := StartName [c]\<rparr>)"
      using c name_char_not_markup [of c] by (auto simp: step_def s1_def name_char_def)
    moreover have "run (s1\<lparr>b_mode := StartName [c]\<rparr>) k' =
        Some (s1\<lparr>b_mode := StartName [c]\<rparr>\<lparr>b_mode := StartName ([c] @ k')\<rparr>)"
      using k' by (intro run_start_name) simp_all
    ultimately show ?thesis
      by (simp add: kk s2_def)
  qed
  have 3: "run s2 ''>'' = Some s3"
    by (simp add: step_def s2_def s1_def s3_def open_elem_def name_char_def name_start_def
        is_digit_def)
  have 4: "run s3 v = Some s4"
    using run_text [of s3 v] v by (simp add: s3_def s4_def s1_def)
  have 5: "run s4 ''<'' = Some s5"
    by (auto simp: step_def s4_def s3_def s5_def s1_def flush_def)
  have 6: "run s5 ''/'' = Some (s5\<lparr>b_mode := EndName []\<rparr>)"
    by (simp add: step_def s5_def)
  have 8: "run (s5\<lparr>b_mode := EndName []\<rparr>) k = Some s6"
    using run_end_name [of "s5\<lparr>b_mode := EndName []\<rparr>" "[]" k] kall
    by (simp add: s6_def)
  have 7: "run s6 ''>'' = Some s7"
    by (simp add: step_def s6_def s5_def s3_def s1_def s7_def close_elem_def name_char_def
        name_start_def is_digit_def st(1))
  have "run st (''<'' @ k @ ''>'' @ v @ ''</'' @ k @ ''>'') =
      run st (''<'' @ k @ ''>'' @ v @ ''<'' @ (''/'' @ k) @ ''>'')"
    by simp
  also have "\<dots> = Some s7"
    by (simp only: run_append 1 2 3 4 5 6 8 7 option.case)
  finally show ?thesis
    using sig leaves unfolding s7_def by blast
qed

lemma run_close:
  assumes st: "b_mode st = Content" "b_stack st = (n, txt, kids) # fs"
    and n: "list_all name_char n"
  shows "\<exists>txt' kids'.
      run st (''</'' @ n @ ''>'') =
        close_elem n (st\<lparr>b_buf := [], b_stack := (n, txt', kids') # fs, b_mode := EndName n\<rparr>) \<and>
      map (\<lambda>e. (tag e, elem_text e)) kids' = map (\<lambda>e. (tag e, elem_text e)) kids \<and>
      list_all (\<lambda>e. children e = []) kids' = list_all (\<lambda>e. children e = []) kids"
proof -
  obtain txt' kids' where f: "flush st = Some (st\<lparr>b_buf := [], b_stack := (n, txt', kids') # fs\<rparr>)"
    and sig: "map (\<lambda>e. (tag e, elem_text e)) kids' = map (\<lambda>e. (tag e, elem_text e)) kids"
    and leaves: "list_all (\<lambda>e. children e = []) kids' = list_all (\<lambda>e. children e = []) kids"
    using flush_inside [OF st(2)] by blast
  define s1 where "s1 = st\<lparr>b_buf := [], b_stack := (n, txt', kids') # fs, b_mode := EndName []\<rparr>"
  define s2 where "s2 = st\<lparr>b_buf := [], b_stack := (n, txt', kids') # fs, b_mode := EndName n\<rparr>"
  have 1: "run st ''</'' = Some s1"
    using st(1) f by (simp add: step_def s1_def)
  have 2: "run s1 n = Some s2"
    using run_end_name [of s1 "[]" n] n by (simp add: s1_def s2_def)
  have 3: "run s2 ''>'' = close_elem n s2"
    by (simp add: step_def s2_def name_char_def name_start_def is_digit_def split: option.splits)
  have "run st (''</'' @ n @ ''>'') = close_elem n s2"
    by (simp only: run_append 1 2 3 option.case)
  then show ?thesis
    using sig leaves unfolding s2_def by blast
qed

lemma building_iff:
  "building rf sigs st \<longleftrightarrow>
     b_mode st = Content \<and>
     (\<exists>ctxt kids. b_stack st = [(''CLIENT_ADD_IN'', ctxt, kids), rf] \<and>
        map (\<lambda>e. (tag e, elem_text e)) (rev kids) = sigs \<and>
        list_all (\<lambda>e. children e = []) kids)"
proof (cases "b_stack st")
  case Nil
  then show ?thesis by (simp add: building_def)
next
  case (Cons f fs)
  obtain n ctxt kids where f: "f = (n, ctxt, kids)"
    by (cases f)
  show ?thesis
  proof (cases fs)
    case Nil
    with Cons f show ?thesis by (simp add: building_def)
  next
    case (Cons g gs)
    with \<open>b_stack st = f # fs\<close> f show ?thesis
      by (cases gs) (auto simp: building_def)
  qed
qed

lemma building_text:
  assumes "building rf sigs st" and "\<forall>c \<in> set w. text_char c"
  shows "run st w = Some (st\<lparr>b_buf := b_buf st @ w\<rparr>) \<and> building rf sigs (st\<lparr>b_buf := b_buf st @ w\<rparr>)"
  using assms run_text [of st w] by (simp add: building_def)

lemma run_item:
  assumes b: "building rf sigs st" and k: "valid_name key" and v: "\<forall>c \<in> set val. text_char c"
  shows "\<exists>st'. run st (item_text (key, val, required)) = Some st' \<and>
           building rf (sigs @ item_sig (key, val, required)) st' \<and> b_root st' = b_root st"
proof -
  have sp: "\<forall>c \<in> set ''        ''. text_char c" and nl: "\<forall>c \<in> set ''\<newline>''. text_char c"
    by (simp_all add: text_char_def)
  define s1 where "s1 = st\<lparr>b_buf := b_buf st @ ''        ''\<rparr>"
  have 1: "run st ''        '' = Some s1" and b1: "building rf sigs s1"
    using building_text [OF b sp] by (simp_all add: s1_def)
  show ?thesis
  proof (cases "required \<or> val \<noteq> []")
    case False
    have 2: "run s1 ''\<newline>'' = Some (s1\<lparr>b_buf := b_buf s1 @ ''\<newline>''\<rparr>)"
      and b2: "building rf sigs (s1\<lparr>b_buf := b_buf s1 @ ''\<newline>''\<rparr>)"
      using building_text [OF b1 nl] by simp_all
    have "run st (item_text (key, val, required)) = run st (''        '' @ ''\<newline>'')"
      using False by (simp add: item_text_def)
    also have "\<dots> = Some (s1\<lparr>b_buf := b_buf s1 @ ''\<newline>''\<rparr>)"
      by (simp only: run_append 1 2 option.case)
    finally show ?thesis
      using False b2 by (simp add: item_sig_def s1_def)
  next
    case True
    from b1 obtain ctxt kids where m: "b_mode s1 = Content"
      and s: "b_stack s1 = [(''CLIENT_ADD_IN'', ctxt, kids), rf]"
      and sg: "map (\<lambda>e. (tag e, elem_text e)) (rev kids) = sigs"
      and lv: "list_all (\<lambda>e. children e = []) kids"
      unfolding building_iff by blast
    let ?e = "Element key [] (if val = [] then None else Some val) None []"
    obtain txt' kids' where
      2: "run s1 (''<'' @ key @ ''>'' @ val @ ''</'' @ key @ ''>'') =
        Some (s1\<lparr>b_buf := [], b_stack := [(''CLIENT_ADD_IN'', txt', ?e # kids'), rf]\<rparr>)"
      and sg': "map (\<lambda>e. (tag e, elem_text e)) kids' = map (\<lambda>e. (tag e, elem_text e)) kids"
      and lv': "list_all (\<lambda>e. children e = []) kids' = list_all (\<lambda>e. children e = []) kids"
      using run_element [OF m s k v] by blast
    define s2 where "s2 = s1\<lparr>b_buf := [], b_stack := [(''CLIENT_ADD_IN'', txt', ?e # kids'), rf]\<rparr>"
    have "map (\<lambda>e. (tag e, elem_text e)) (rev kids') = sigs"
      using sg sg' by (metis rev_map)
    then have b2: "building rf (sigs @ item_sig (key, val, required)) s2"
      using True m lv lv' by (simp add: building_iff s2_def item_sig_def)
    have 3: "run s2 ''\<newline>'' = Some (s2\<lparr>b_buf := b_buf s2 @ ''\<newline>''\<rparr>)"
      and b3: "building rf (sigs @ item_sig (key, val, required)) (s2\<lparr>b_buf := b_buf s2 @ ''\<newline>''\<rparr>)"
      using building_text [OF b2 nl] by simp_all
    have "run st (item_text (key, val, required)) =
        run st (''        '' @ (''<'' @ key @ ''>'' @ val @ ''</'' @ key @ ''>'') @ ''\<newline>'')"
      using True by (simp add: item_text_def)
    also have "\<dots> = Some (s2\<lparr>b_buf := b_buf s2 @ ''\<newline>''\<rparr>)"
      using 2 3 by (simp only: run_append [of st] run_append [of s1] 1 s2_def [symmetric] option.case)
    finally show ?thesis
      using b3 by (simp add: s2_def s1_def)
  qed
qed

lemma run_items:
  assumes "building rf sigs st"
    and "list_all (\<lambda>(key, val, required). valid_name key \<and> (\<forall>c \<in> set val. text_char c)) items"
  shows "\<exists>st'. run st (concat (map item_text items)) = Some st' \<and>
           building rf (sigs @ concat (map item_sig items)) st' \<and> b_root st' = b_root st"
  using assms
proof (induction items arbitrary: st sigs)
  case Nil
  then show ?case by simp
next
  case (Cons item items)
  obtain key val required where item: "item = (key, val, required)"
    by (cases item)
  with Cons.prems obtain st1 where 1: "run st (item_text item) = Some st1"
    and b1: "building rf (sigs @ item_sig item) st1" and r1: "b_root st1 = b_root st"
    using run_item [of rf sigs st key val required] by auto
  from Cons.prems(2) have "list_all (\<lambda>(key, val, required). valid_name key \<and>
      (\<forall>c \<in> set val. text_char c)) items"
    by simp
  with b1 obtain st2 where 2: "run st1 (concat (map item_text items)) = Some st2"
    and b2: "building rf ((sigs @ item_sig item) @ concat (map item_sig items)) st2"
    and r2: "b_root st2 = b_root st1"
    using Cons.IH by blast
  from 1 2 b2 r1 r2 show ?case
    by (simp add: run_append)
qed

subsection \<open>The header and the end of the body\<close>

lemma now_ts_text: "\<forall>c \<in> set (now_ts env). text_char c"
proof
  fix c
  assume "c \<in> set (now_ts env)"
  then have "c \<in> set ''0123456789''"
    using now_ts_chars by blast
  then show "text_char c"
    by (auto simp: text_char_def)
qed

lemma msg_id_text: "\<forall>c \<in> set (msg_id env). text_char c"
proof
  fix c
  assume "c \<in> set (msg_id env)"
  then have "c \<in> set ''0123456789abcdef''"
    using msg_id_chars by blast
  then show "text_char c"
    by (auto simp: text_char_def)
qed

lemma now_ts_nonempty: "now_ts env \<noteq> []"
  by (simp add: now_ts_def zfill_def Let_def)

lemma msg_id_nonempty: "msg_id env \<noteq> []"
proof -
  obtain x xs where h: "uuid_hex (uuid4 env) = x # xs"
    by (cases "uuid_hex (uuid4 env)") (simp_all add: uuid_hex_def)
  then have "x \<in> set ''0123456789abcdef''"
    using uuid_hex_chars [of "uuid4 env"] by simp
  then have "x \<noteq> CHR ''-''"
    by auto
  then show ?thesis
    by (simp add: msg_id_def str_uuid_def h)
qed

lemma run_text_append:
  assumes "b_mode st = Content" and "\<forall>c \<in> set v. text_char c"
  shows "run st (v @ rest) = run (st\<lparr>b_buf := b_buf st @ v\<rparr>) rest"
  using assms by (simp add: run_append run_text)

lemma run_header:
  "case run \<lparr>b_mode = Content, b_buf = [], b_stack = [], b_root = None\<rparr>
       (''\<newline>'' @ ''<WEB_CLIENT_ADD>\<newline>'' @ ''    '' @ build_msh_xml env ''CLIENT_ADD'' None @
        ''\<newline>'' @ ''    <CLIENT_ADD_IN>\<newline>'') of
     None \<Rightarrow> False
   | Some st \<Rightarrow>
       b_mode st = Content \<and> b_root st = None \<and>
       (case b_stack st of
          [(n, ctxt, kids), (rn, rt, [m])] \<Rightarrow>
            n = ''CLIENT_ADD_IN'' \<and> kids = [] \<and> rn = ''WEB_CLIENT_ADD'' \<and>
            filter (\<lambda>e. tag e = ''CLIENT_ADD_IN'') (iter m) = []
        | _ \<Rightarrow> False)"
  by (simp add: build_msh_xml_def EXTERNAL_SYSTEM_ID_def step_def flush_def open_elem_def
      close_elem_def text_char_def name_char_def name_start_def is_digit_def xml_space_def
      run_text_append [OF _ now_ts_text] run_text_append [OF _ msg_id_text]
      now_ts_nonempty msg_id_nonempty)

end
